theory Spec2Isabelle
  imports Main "HOL-Library.Word" "HOL-Library.Multiset"
begin

unbundle bit_operations_syntax

section \<open>The lock-free ring buffer (kernel/safe_ringbuf.cpp)\<close>

text \<open>
  The status word of the ring buffer packs the read position, the write position and the
  full flag. The positions are bit fields wide enough for every capacity that
  \<open>safe_ringbuf_init\<close> admits (\<open>max_elems \<le> 32768\<close>), so they are natural numbers
  here and no store truncates them below that bound.

  The backing storage is an array of \<open>max_elems\<close> slots of \<open>elem_size\<close> bytes each; the two
  \<open>memcpy\<close> calls of the source move one whole slot, so the storage is a function from the
  slot number to the element held there.
\<close>

record generic_safe_ringbuf_stat =
  read_pos :: nat
  write_pos :: nat
  full :: bool

record 'a safe_ringbuf =
  max_elems :: nat
  elem_size :: nat
  buf :: "nat \<Rightarrow> 'a"
  stat :: generic_safe_ringbuf_stat
  nested_writes :: int

text \<open>
  What can stop a ring buffer operation instead of letting it return: the remainder by a
  capacity of zero, and the panic of the debug read check.
\<close>

datatype rb_fault = Division_By_Zero | Read_Interrupted_Write

definition rb_stat_is_empty :: "generic_safe_ringbuf_stat \<Rightarrow> bool" where
  "rb_stat_is_empty st \<longleftrightarrow> read_pos st = write_pos st \<and> \<not> full st"

definition begin_debug_write_checks :: "'a safe_ringbuf \<Rightarrow> 'a safe_ringbuf" where
  "begin_debug_write_checks rb = rb\<lparr>nested_writes := nested_writes rb + 1\<rparr>"

definition end_debug_write_checks :: "'a safe_ringbuf \<Rightarrow> 'a safe_ringbuf" where
  "end_debug_write_checks rb = rb\<lparr>nested_writes := nested_writes rb - 1\<rparr>"

definition safe_ringbuf_init :: "nat \<Rightarrow> nat \<Rightarrow> (nat \<Rightarrow> 'a) \<Rightarrow> 'a safe_ringbuf" where
  "safe_ringbuf_init n e_size storage =
     \<lparr>max_elems = n, elem_size = e_size, buf = storage,
      stat = \<lparr>read_pos = 0, write_pos = 0, full = False\<rparr>,
      nested_writes = 0\<rparr>"

text \<open>
  The compare-and-swap loop of \<open>safe_ringbuf_write_elem\<close>. Within one execution context the
  status word cannot change between the load and the compare-and-swap, so the weak
  compare-and-swap fails only spuriously; the first argument counts these failures, each
  of which repeats the loop body. The result is the return value, the status \<open>cs\<close> that
  the successful iteration loaded, and the buffer with the new status stored.
\<close>

fun write_cas_loop ::
  "nat \<Rightarrow> 'a safe_ringbuf \<Rightarrow> rb_fault + (bool \<times> generic_safe_ringbuf_stat \<times> 'a safe_ringbuf)"
where
  "write_cas_loop k rb =
     (let cs = stat rb; ns = stat rb in
      if full cs then Inr (False, cs, rb)
      else if max_elems rb = 0 then Inl Division_By_Zero
      else
        let ns = ns\<lparr>write_pos := (write_pos ns + 1) mod max_elems rb\<rparr>;
            ns = (if write_pos ns = read_pos ns then ns\<lparr>full := True\<rparr> else ns)
        in case k of
             0 \<Rightarrow> Inr (True, cs, rb\<lparr>stat := ns\<rparr>)
           | Suc k' \<Rightarrow> write_cas_loop k' rb)"

declare write_cas_loop.simps [simp del]

text \<open>
  \<open>safe_ringbuf_write_elem\<close>: the result is the return value, the value stored in
  \<open>*was_empty\<close>, and the buffer afterwards.
\<close>

definition safe_ringbuf_write_elem ::
  "nat \<Rightarrow> 'a safe_ringbuf \<Rightarrow> 'a \<Rightarrow> rb_fault + (bool \<times> bool \<times> 'a safe_ringbuf)"
where
  "safe_ringbuf_write_elem k rb elem =
     (case write_cas_loop k (begin_debug_write_checks rb) of
        Inl f \<Rightarrow> Inl f
      | Inr (ret, cs, rb1) \<Rightarrow>
          if \<not> ret then Inr (False, False, end_debug_write_checks rb1)
          else
            let rb2 = rb1\<lparr>buf := (buf rb1)(write_pos cs := elem)\<rparr>
            in Inr (True, rb_stat_is_empty cs, end_debug_write_checks rb2))"

text \<open>
  The loop of \<open>safe_ringbuf_read_elem\<close>. The second argument is what the caller's
  \<open>elem_ptr\<close> holds; every iteration that finds an element copies it there before the
  compare-and-swap.
\<close>

fun read_cas_loop ::
  "nat \<Rightarrow> 'a safe_ringbuf \<Rightarrow> 'a \<Rightarrow> rb_fault + (bool \<times> 'a \<times> 'a safe_ringbuf)"
where
  "read_cas_loop k rb out =
     (let cs = stat rb; ns = stat rb in
      if rb_stat_is_empty cs then Inr (False, out, rb)
      else
        let out = buf rb (read_pos cs) in
        if max_elems rb = 0 then Inl Division_By_Zero
        else
          let ns = ns\<lparr>read_pos := (read_pos ns + 1) mod max_elems rb\<rparr>;
              ns = ns\<lparr>full := False\<rparr>
          in case k of
               0 \<Rightarrow> Inr (True, out, rb\<lparr>stat := ns\<rparr>)
             | Suc k' \<Rightarrow> read_cas_loop k' rb out)"

declare read_cas_loop.simps [simp del]

definition safe_ringbuf_read_elem ::
  "nat \<Rightarrow> 'a safe_ringbuf \<Rightarrow> 'a \<Rightarrow> rb_fault + (bool \<times> 'a \<times> 'a safe_ringbuf)"
where
  "safe_ringbuf_read_elem k rb out =
     (if nested_writes rb \<noteq> 0 then Inl Read_Interrupted_Write
      else read_cas_loop k rb out)"


subsection \<open>Spurious compare-and-swap failures change nothing\<close>

lemma write_cas_loop_spurious: "write_cas_loop k rb = write_cas_loop 0 rb"
  by (induction k) (simp_all add: write_cas_loop.simps [of "Suc _"] write_cas_loop.simps [of 0] Let_def)

lemma read_cas_loop_spurious: "read_cas_loop k rb out = read_cas_loop 0 rb out"
proof (induction k arbitrary: out)
  case 0
  show ?case by simp
next
  case (Suc k)
  show ?case
    by (simp add: read_cas_loop.simps [of "Suc k" rb out] read_cas_loop.simps [of 0 rb out]
        Suc.IH [of "buf rb (read_pos (stat rb))"]
        read_cas_loop.simps [of 0 rb "buf rb (read_pos (stat rb))"] Let_def)
qed

subsection \<open>The unread elements of a ring buffer\<close>

text \<open>
  A buffer is well formed when its capacity is within the bound that \<open>safe_ringbuf_init\<close>
  asserts, both positions are inside the storage, the full flag is set only where the two
  positions meet, and no write is in flight. \<open>rb_unread\<close> lists the elements written and
  not yet read, oldest first.
\<close>

definition rb_wf :: "'a safe_ringbuf \<Rightarrow> bool" where
  "rb_wf rb \<longleftrightarrow>
     0 < max_elems rb \<and> max_elems rb \<le> 32768 \<and>
     read_pos (stat rb) < max_elems rb \<and> write_pos (stat rb) < max_elems rb \<and>
     (full (stat rb) \<longrightarrow> read_pos (stat rb) = write_pos (stat rb)) \<and>
     nested_writes rb = 0"

definition rb_count :: "'a safe_ringbuf \<Rightarrow> nat" where
  "rb_count rb =
     (if full (stat rb) then max_elems rb
      else (write_pos (stat rb) + max_elems rb - read_pos (stat rb)) mod max_elems rb)"

definition rb_unread :: "'a safe_ringbuf \<Rightarrow> 'a list" where
  "rb_unread rb =
     map (\<lambda>i. buf rb ((read_pos (stat rb) + i) mod max_elems rb)) [0..<rb_count rb]"

lemma write_full:
  "full (stat rb) \<Longrightarrow> safe_ringbuf_write_elem k rb e = Inr (False, False, rb)"
  by (simp add: safe_ringbuf_write_elem_def write_cas_loop_spurious [of k]
      write_cas_loop.simps [of 0] begin_debug_write_checks_def end_debug_write_checks_def)

lemma write_not_full:
  "\<not> full (stat rb) \<Longrightarrow> 0 < max_elems rb \<Longrightarrow>
   safe_ringbuf_write_elem k rb e =
     Inr (True, rb_stat_is_empty (stat rb),
          rb\<lparr>buf := (buf rb)(write_pos (stat rb) := e),
             stat := \<lparr>read_pos = read_pos (stat rb),
                      write_pos = (write_pos (stat rb) + 1) mod max_elems rb,
                      full = ((write_pos (stat rb) + 1) mod max_elems rb = read_pos (stat rb))\<rparr>\<rparr>)"
  by (simp add: safe_ringbuf_write_elem_def write_cas_loop_spurious [of k]
      write_cas_loop.simps [of 0] begin_debug_write_checks_def end_debug_write_checks_def Let_def)

lemma read_empty:
  "rb_stat_is_empty (stat rb) \<Longrightarrow> nested_writes rb = 0 \<Longrightarrow>
   safe_ringbuf_read_elem k rb out = Inr (False, out, rb)"
  by (simp add: safe_ringbuf_read_elem_def read_cas_loop_spurious [of k]
      read_cas_loop.simps [of 0])

lemma read_not_empty:
  "\<not> rb_stat_is_empty (stat rb) \<Longrightarrow> nested_writes rb = 0 \<Longrightarrow> 0 < max_elems rb \<Longrightarrow>
   safe_ringbuf_read_elem k rb out =
     Inr (True, buf rb (read_pos (stat rb)),
          rb\<lparr>stat := \<lparr>read_pos = (read_pos (stat rb) + 1) mod max_elems rb,
                      write_pos = write_pos (stat rb), full = False\<rparr>\<rparr>)"
  by (simp add: safe_ringbuf_read_elem_def read_cas_loop_spurious [of k]
      read_cas_loop.simps [of 0] Let_def)

lemma ring_dist:
  fixes r w m :: nat
  assumes "r < m" "w < m"
  shows "(w + m - r) mod m = (if r \<le> w then w - r else w + m - r)"
proof (cases "r \<le> w")
  case True
  have eq: "w + m - r = (w - r) + m" using True assms by linarith
  have "w - r < m" using assms by linarith
  then have "((w - r) + m) mod m = w - r" by simp
  then have "(w + m - r) mod m = w - r" by (simp only: eq)
  then show ?thesis by (simp only: True if_True)
next
  case False
  have "w + m - r < m" using False assms by linarith
  then have "(w + m - r) mod m = w + m - r" by (rule mod_less)
  then show ?thesis by (simp only: False if_False)
qed

lemma ring_end:
  fixes r w m :: nat
  assumes "r < m" "w < m"
  shows "(r + (w + m - r) mod m) mod m = w"
proof (cases "r \<le> w")
  case True
  then show ?thesis using assms by (simp add: ring_dist)
next
  case False
  then have "r + (w + m - r) = w + m" using assms by simp
  then show ?thesis using False assms by (simp add: ring_dist)
qed

lemma ring_inside:
  fixes r w m i :: nat
  assumes "r < m" "w < m" "i < (w + m - r) mod m"
  shows "(r + i) mod m \<noteq> w"
proof -
  have d: "(w + m - r) mod m = (if r \<le> w then w - r else w + m - r)"
    using assms(1,2) by (rule ring_dist)
  have i: "i < (if r \<le> w then w - r else w + m - r)"
    using assms(3) unfolding d .
  show ?thesis
  proof (cases "r + i < m")
    case True
    then have "(r + i) mod m = r + i" by simp
    moreover have "r + i \<noteq> w" using i True assms(1,2) by (cases "r \<le> w") simp_all
    ultimately show ?thesis by simp
  next
    case False
    have "i < m" using i assms(1,2) by (cases "r \<le> w") simp_all
    then have "r + i - m < m" using assms(1) by linarith
    then have "(r + i - m + m) mod m = r + i - m" by simp
    moreover have "r + i - m + m = r + i" using False by simp
    ultimately have "(r + i) mod m = r + i - m" by simp
    moreover have "r + i - m \<noteq> w" using i False assms(1,2) by (cases "r \<le> w") simp_all
    ultimately show ?thesis by simp
  qed
qed

lemma ring_succ:
  fixes r w m :: nat
  assumes "r < m" "w < m" "(w + 1) mod m \<noteq> r"
  shows "((w + 1) mod m + m - r) mod m = Suc ((w + m - r) mod m)"
proof -
  define w' where "w' = (w + 1) mod m"
  have "Suc w = m \<or> Suc w < m" using assms(2) by arith
  then have "(w + 1) mod m = (if Suc w < m then Suc w else 0)" by auto
  then have w': "w' < m" "w' \<noteq> r" "w' = (if Suc w < m then Suc w else 0)"
    using assms by (simp_all add: w'_def)
  have "(w' + m - r) mod m = (if r \<le> w' then w' - r else w' + m - r)"
    using assms(1) w'(1) by (rule ring_dist)
  moreover have "(w + m - r) mod m = (if r \<le> w then w - r else w + m - r)"
    using assms(1,2) by (rule ring_dist)
  ultimately have "(w' + m - r) mod m = Suc ((w + m - r) mod m)"
    using w' assms(1,2) by (simp split: if_splits)
  then show ?thesis by (simp add: w'_def)
qed

lemma ring_succ_full:
  fixes r w m :: nat
  assumes "r < m" "w < m" "(w + 1) mod m = r"
  shows "Suc ((w + m - r) mod m) = m"
proof -
  have "Suc w = m \<or> Suc w < m" using assms(2) by arith
  then have "(w + 1) mod m = (if Suc w < m then Suc w else 0)" by auto
  then have r: "r = (if Suc w < m then Suc w else 0)"
    using assms by simp
  have "(w + m - r) mod m = (if r \<le> w then w - r else w + m - r)"
    using assms(1,2) by (rule ring_dist)
  then show ?thesis using r assms(1,2) by (simp split: if_splits)
qed

lemma rb_count_le: "rb_wf rb \<Longrightarrow> rb_count rb \<le> max_elems rb"
  by (simp add: rb_count_def rb_wf_def less_imp_le)

lemma rb_count_full: "rb_wf rb \<Longrightarrow> full (stat rb) \<longleftrightarrow> rb_count rb = max_elems rb"
proof -
  assume wf: "rb_wf rb"
  then have "0 < max_elems rb" by (simp add: rb_wf_def)
  then have "(write_pos (stat rb) + max_elems rb - read_pos (stat rb)) mod max_elems rb < max_elems rb"
    by (rule mod_less_divisor)
  then show ?thesis by (simp add: rb_count_def)
qed

lemma rb_count_empty:
  "rb_wf rb \<Longrightarrow> rb_stat_is_empty (stat rb) \<longleftrightarrow> rb_count rb = 0"
proof -
  assume wf: "rb_wf rb"
  then have b: "read_pos (stat rb) < max_elems rb" "write_pos (stat rb) < max_elems rb"
    by (simp_all add: rb_wf_def)
  have "(write_pos (stat rb) + max_elems rb - read_pos (stat rb)) mod max_elems rb =
        (if read_pos (stat rb) \<le> write_pos (stat rb)
         then write_pos (stat rb) - read_pos (stat rb)
         else write_pos (stat rb) + max_elems rb - read_pos (stat rb))"
    using b by (rule ring_dist)
  then show ?thesis using b by (auto simp: rb_count_def rb_stat_is_empty_def)
qed

lemma rb_unread_empty:
  "rb_wf rb \<Longrightarrow> rb_stat_is_empty (stat rb) \<longleftrightarrow> rb_unread rb = []"
  by (simp add: rb_count_empty rb_unread_def)

lemma length_rb_unread: "length (rb_unread rb) = rb_count rb"
  by (simp add: rb_unread_def)

lemma rb_count_after_write:
  fixes r w m :: nat
  assumes "r < m" "w < m"
  shows "(if Suc w mod m = r then m else (Suc w mod m + m - r) mod m) = Suc ((w + m - r) mod m)"
proof (cases "(w + 1) mod m = r")
  case True
  from ring_succ_full [OF assms True] True show ?thesis by simp
next
  case False
  from ring_succ [OF assms False] False show ?thesis by simp
qed

lemma rb_count_after_read:
  fixes r w m :: nat
  assumes "r < m" "w < m" "f \<longrightarrow> r = w" "f \<or> r \<noteq> w"
  shows "Suc ((w + m - Suc r mod m) mod m) = (if f then m else (w + m - r) mod m)"
proof -
  define r' where "r' = Suc r mod m"
  have "Suc r = m \<or> Suc r < m" using assms(1) by arith
  then have r': "r' = (if Suc r < m then Suc r else 0)" by (auto simp: r'_def)
  then have "r' < m" using assms(1) by (simp split: if_splits)
  then have d1: "(w + m - r') mod m = (if r' \<le> w then w - r' else w + m - r')"
    using assms(2) by (rule ring_dist)
  have d2: "(w + m - r) mod m = (if r \<le> w then w - r else w + m - r)"
    using assms(1,2) by (rule ring_dist)
  have "Suc ((w + m - r') mod m) = (if f then m else (w + m - r) mod m)"
    unfolding d1 d2 using assms r' by (auto split: if_splits)
  then show ?thesis by (simp only: r'_def)
qed

lemma write_accepted:
  assumes wf: "rb_wf rb" and nf: "\<not> full (stat rb)"
  shows "\<exists>rb'. safe_ringbuf_write_elem k rb e = Inr (True, rb_stat_is_empty (stat rb), rb') \<and>
           rb_wf rb' \<and> rb_unread rb' = rb_unread rb @ [e] \<and> max_elems rb' = max_elems rb"
proof -
  let ?r = "read_pos (stat rb)" and ?w = "write_pos (stat rb)" and ?m = "max_elems rb"
  let ?rb' = "rb\<lparr>buf := (buf rb)(?w := e),
      stat := \<lparr>read_pos = ?r, write_pos = (?w + 1) mod ?m, full = ((?w + 1) mod ?m = ?r)\<rparr>\<rparr>"
  have b: "?r < ?m" "?w < ?m" "0 < ?m" "?m \<le> 32768" "nested_writes rb = 0"
    using wf by (simp_all add: rb_wf_def)
  have step: "safe_ringbuf_write_elem k rb e = Inr (True, rb_stat_is_empty (stat rb), ?rb')"
    using nf b(3) by (simp add: write_not_full)
  have cnt: "rb_count rb = (?w + ?m - ?r) mod ?m"
    using nf by (simp add: rb_count_def)
  have wf': "rb_wf ?rb'"
    using b by (simp add: rb_wf_def)
  have "rb_count ?rb' = (if Suc ?w mod ?m = ?r then ?m else (Suc ?w mod ?m + ?m - ?r) mod ?m)"
    by (simp add: rb_count_def)
  then have cnt': "rb_count ?rb' = Suc (rb_count rb)"
    by (simp only: rb_count_after_write [OF b(1,2)] cnt)
  have old: "buf ?rb' ((?r + i) mod ?m) = buf rb ((?r + i) mod ?m)" if "i < rb_count rb" for i
    using ring_inside [OF b(1,2), of i] that by (simp add: cnt)
  have new: "buf ?rb' ((?r + rb_count rb) mod ?m) = e"
    using ring_end [OF b(1,2)] by (simp add: cnt)
  have "rb_unread ?rb' = map (\<lambda>i. buf ?rb' ((?r + i) mod ?m)) [0..<Suc (rb_count rb)]"
    unfolding rb_unread_def cnt' by simp
  also have "\<dots> = map (\<lambda>i. buf ?rb' ((?r + i) mod ?m)) [0..<rb_count rb] @ [e]"
    using new by simp
  also have "map (\<lambda>i. buf ?rb' ((?r + i) mod ?m)) [0..<rb_count rb] = rb_unread rb"
    unfolding rb_unread_def using old by simp
  finally have "rb_unread ?rb' = rb_unread rb @ [e]" .
  moreover have "max_elems ?rb' = max_elems rb" by simp
  ultimately show ?thesis using step wf' by blast
qed

lemma read_accepted:
  assumes wf: "rb_wf rb" and ne: "rb_unread rb = x # xs"
  shows "\<exists>rb'. safe_ringbuf_read_elem k rb out = Inr (True, x, rb') \<and>
           rb_wf rb' \<and> rb_unread rb' = xs \<and> max_elems rb' = max_elems rb"
proof -
  let ?r = "read_pos (stat rb)" and ?w = "write_pos (stat rb)" and ?m = "max_elems rb"
  let ?rb' = "rb\<lparr>stat := \<lparr>read_pos = (?r + 1) mod ?m, write_pos = ?w, full = False\<rparr>\<rparr>"
  have b: "?r < ?m" "?w < ?m" "0 < ?m" "?m \<le> 32768" "nested_writes rb = 0"
    using wf by (simp_all add: rb_wf_def)
  have nonempty: "\<not> rb_stat_is_empty (stat rb)"
    using wf ne by (simp add: rb_unread_empty)
  have step: "safe_ringbuf_read_elem k rb out = Inr (True, buf rb ?r, ?rb')"
    using nonempty b(3,5) by (simp add: read_not_empty)
  have f1: "full (stat rb) \<longrightarrow> ?r = ?w"
    using wf by (simp add: rb_wf_def)
  have f2: "full (stat rb) \<or> ?r \<noteq> ?w"
    using nonempty by (auto simp: rb_stat_is_empty_def)
  have wf': "rb_wf ?rb'"
    using b by (simp add: rb_wf_def)
  have "rb_count ?rb' = (?w + ?m - Suc ?r mod ?m) mod ?m"
    by (simp add: rb_count_def)
  then have cnt': "Suc (rb_count ?rb') = rb_count rb"
    by (simp only: rb_count_after_read [OF b(1,2) f1 f2] rb_count_def)
  have shift: "((?r + 1) mod ?m + i) mod ?m = (?r + Suc i) mod ?m" for i
    by (simp add: mod_add_left_eq)
  have "rb_unread rb = map (\<lambda>i. buf rb ((?r + i) mod ?m)) [0..<Suc (rb_count ?rb')]"
    unfolding rb_unread_def cnt' ..
  also have "\<dots> = buf rb ?r # map (\<lambda>i. buf rb ((?r + Suc i) mod ?m)) [0..<rb_count ?rb']"
    using b(1) by (simp add: upt_conv_Cons map_Suc_upt [symmetric] del: upt_Suc)
  also have "map (\<lambda>i. buf rb ((?r + Suc i) mod ?m)) [0..<rb_count ?rb'] = rb_unread ?rb'"
    unfolding rb_unread_def using shift by simp
  finally have "x = buf rb ?r" "xs = rb_unread ?rb'" using ne by simp_all
  moreover have "max_elems ?rb' = max_elems rb" by simp
  ultimately show ?thesis using step wf' by blast
qed

lemma read_rejected:
  assumes wf: "rb_wf rb" and e: "rb_unread rb = []"
  shows "safe_ringbuf_read_elem k rb out = Inr (False, out, rb)"
proof -
  have "rb_stat_is_empty (stat rb)" using wf e by (simp add: rb_unread_empty)
  moreover have "nested_writes rb = 0" using wf by (simp add: rb_wf_def)
  ultimately show ?thesis by (rule read_empty)
qed

subsection \<open>Sequences of writes and of reads\<close>

text \<open>
  \<open>write_all\<close> issues one \<open>safe_ringbuf_write_elem\<close> call per list entry (the number of
  spurious compare-and-swap failures of the call, and the element), collecting the return
  values; \<open>read_all\<close> issues one \<open>safe_ringbuf_read_elem\<close> call per list entry,
  collecting each return value with what the call left in the caller's element.
\<close>

fun write_all ::
  "'a safe_ringbuf \<Rightarrow> (nat \<times> 'a) list \<Rightarrow> rb_fault + (bool list \<times> 'a safe_ringbuf)"
where
  "write_all rb [] = Inr ([], rb)"
| "write_all rb ((k, e) # ws) =
     (case safe_ringbuf_write_elem k rb e of
        Inl f \<Rightarrow> Inl f
      | Inr (ret, was_empty, rb') \<Rightarrow>
          (case write_all rb' ws of
             Inl f \<Rightarrow> Inl f
           | Inr (rets, rb'') \<Rightarrow> Inr (ret # rets, rb'')))"

fun read_all ::
  "'a safe_ringbuf \<Rightarrow> 'a \<Rightarrow> nat list \<Rightarrow> rb_fault + ((bool \<times> 'a) list \<times> 'a safe_ringbuf)"
where
  "read_all rb out [] = Inr ([], rb)"
| "read_all rb out (k # ks) =
     (case safe_ringbuf_read_elem k rb out of
        Inl f \<Rightarrow> Inl f
      | Inr (ret, out', rb') \<Rightarrow>
          (case read_all rb' out' ks of
             Inl f \<Rightarrow> Inl f
           | Inr (rs, rb'') \<Rightarrow> Inr ((ret, out') # rs, rb'')))"

lemma write_all_accepted:
  "rb_wf rb \<Longrightarrow> rb_count rb + length ws \<le> max_elems rb \<Longrightarrow>
   \<exists>rb'. write_all rb ws = Inr (replicate (length ws) True, rb') \<and>
         rb_wf rb' \<and> rb_unread rb' = rb_unread rb @ map snd ws"
proof (induction ws arbitrary: rb)
  case Nil
  then show ?case by simp
next
  case (Cons kw ws)
  obtain k e where kw: "kw = (k, e)" by (cases kw)
  have "rb_count rb < max_elems rb" using Cons.prems(2) by simp
  then have "\<not> full (stat rb)" using Cons.prems(1) by (simp add: rb_count_full)
  with Cons.prems(1) obtain rb1 where
    w: "safe_ringbuf_write_elem k rb e = Inr (True, rb_stat_is_empty (stat rb), rb1)"
    and wf1: "rb_wf rb1" and u1: "rb_unread rb1 = rb_unread rb @ [e]"
    and m1: "max_elems rb1 = max_elems rb"
    using write_accepted [of rb k e] by blast
  have "rb_count rb1 = Suc (rb_count rb)"
    using u1 length_rb_unread [of rb1] length_rb_unread [of rb] by simp
  then have "rb_count rb1 + length ws \<le> max_elems rb1"
    using Cons.prems(2) m1 by simp
  with Cons.IH [OF wf1] obtain rb2 where
    "write_all rb1 ws = Inr (replicate (length ws) True, rb2)" "rb_wf rb2"
    "rb_unread rb2 = rb_unread rb1 @ map snd ws"
    by blast
  then show ?case using w u1 kw by simp
qed

lemma read_all_fifo:
  "rb_wf rb \<Longrightarrow> rb_unread rb = xs @ ys \<Longrightarrow> length ks = length xs \<Longrightarrow>
   \<exists>rb'. read_all rb out ks = Inr (map (Pair True) xs, rb') \<and>
         rb_wf rb' \<and> rb_unread rb' = ys"
proof (induction xs arbitrary: rb out ks)
  case Nil
  then show ?case by simp
next
  case (Cons x xs)
  obtain k ks' where ks: "ks = k # ks'" "length ks' = length xs"
    using Cons.prems(3) by (cases ks) simp_all
  have "rb_unread rb = x # (xs @ ys)" using Cons.prems(2) by simp
  with Cons.prems(1) obtain rb1 where
    r: "safe_ringbuf_read_elem k rb out = Inr (True, x, rb1)"
    and wf1: "rb_wf rb1" and u1: "rb_unread rb1 = xs @ ys"
    using read_accepted [of rb x "xs @ ys" k out] by blast
  from Cons.IH [OF wf1 u1 ks(2), of x] obtain rb2 where
    "read_all rb1 x ks' = Inr (map (Pair True) xs, rb2)" "rb_wf rb2" "rb_unread rb2 = ys"
    by blast
  then show ?case using r ks by simp
qed

subsection \<open>Claims about the ring buffer\<close>

text \<open>
  Claim C4. Whenever the full flag of the status word is set, \<open>safe_ringbuf_write_elem\<close>
  returns false, stores false in \<open>*was_empty\<close>, and leaves the whole ring buffer as it
  was: the backing storage, the status word \<open>{read_pos, write_pos, full}\<close> and the debug
  counter. No slot is written, so no unread element is overwritten.
\<close>

theorem write_full_rejected:
  "full (stat rb) \<Longrightarrow> safe_ringbuf_write_elem k rb e = Inr (False, False, rb)"
  by (rule write_full)

theorem write_full_rejected_witness:
  "full (stat \<lparr>max_elems = 2, elem_size = 4, buf = (\<lambda>_. 0 :: nat)(0 := 5, 1 := 6),
       stat = \<lparr>read_pos = 1, write_pos = 1, full = True\<rparr>, nested_writes = 0\<rparr>) \<and>
   safe_ringbuf_write_elem 3
     \<lparr>max_elems = 2, elem_size = 4, buf = (\<lambda>_. 0 :: nat)(0 := 5, 1 := 6),
       stat = \<lparr>read_pos = 1, write_pos = 1, full = True\<rparr>, nested_writes = 0\<rparr> 7 =
   Inr (False, False,
     \<lparr>max_elems = 2, elem_size = 4, buf = (\<lambda>_. 0 :: nat)(0 := 5, 1 := 6),
       stat = \<lparr>read_pos = 1, write_pos = 1, full = True\<rparr>, nested_writes = 0\<rparr>)"
proof -
  let ?rb = "\<lparr>max_elems = 2, elem_size = 4, buf = (\<lambda>_. 0 :: nat)(0 := 5, 1 := 6),
       stat = \<lparr>read_pos = 1, write_pos = 1, full = True\<rparr>, nested_writes = 0\<rparr>"
  have h: "full (stat ?rb)" by simp
  from write_full_rejected [OF h, of 3 7] h show ?thesis by simp
qed

text \<open>
  Claim C6. For every accepted call of \<open>safe_ringbuf_write_elem\<close> (return value true),
  the value stored in \<open>*was_empty\<close> is true exactly when, immediately before the write,
  \<open>read_pos = write_pos\<close> and the full flag was clear; on a well-formed buffer that is
  exactly when the buffer held no unread element.
\<close>

theorem write_was_empty_iff:
  assumes "safe_ringbuf_write_elem k rb e = Inr (True, was_empty, rb')"
  shows "(was_empty \<longleftrightarrow> read_pos (stat rb) = write_pos (stat rb) \<and> \<not> full (stat rb)) \<and>
         (rb_wf rb \<longrightarrow> (was_empty \<longleftrightarrow> rb_unread rb = []))"
proof -
  have nf: "\<not> full (stat rb)"
    using assms by (cases "full (stat rb)") (simp_all add: write_full)
  have m: "0 < max_elems rb"
    using assms nf
    by (cases "max_elems rb = 0")
       (simp_all add: safe_ringbuf_write_elem_def write_cas_loop_spurious [of k]
          write_cas_loop.simps [of 0] begin_debug_write_checks_def)
  have "was_empty \<longleftrightarrow> rb_stat_is_empty (stat rb)"
    using assms nf m by (simp add: write_not_full)
  then show ?thesis by (simp add: rb_unread_empty) (simp add: rb_stat_is_empty_def)
qed

theorem write_was_empty_iff_witness:
  "safe_ringbuf_write_elem 1 (safe_ringbuf_init 2 4 (\<lambda>_. 0 :: nat)) 5 =
     Inr (True, True,
       \<lparr>max_elems = 2, elem_size = 4, buf = (\<lambda>_. 0)(0 := 5),
         stat = \<lparr>read_pos = 0, write_pos = 1, full = False\<rparr>, nested_writes = 0\<rparr>) \<and>
   (True \<longleftrightarrow> read_pos (stat (safe_ringbuf_init 2 4 (\<lambda>_. 0 :: nat))) =
       write_pos (stat (safe_ringbuf_init 2 4 (\<lambda>_. 0 :: nat))) \<and>
       \<not> full (stat (safe_ringbuf_init 2 4 (\<lambda>_. 0 :: nat)))) \<and>
   rb_wf (safe_ringbuf_init 2 4 (\<lambda>_. 0 :: nat)) \<and>
   (True \<longleftrightarrow> rb_unread (safe_ringbuf_init 2 4 (\<lambda>_. 0 :: nat)) = [])"
proof -
  let ?rb = "safe_ringbuf_init 2 4 (\<lambda>_. 0 :: nat)"
  let ?rb' = "\<lparr>max_elems = 2, elem_size = 4, buf = (\<lambda>_. 0 :: nat)(0 := 5),
         stat = \<lparr>read_pos = 0, write_pos = 1, full = False\<rparr>, nested_writes = 0\<rparr>"
  have h: "safe_ringbuf_write_elem 1 ?rb 5 = Inr (True, True, ?rb')"
    by (simp add: write_not_full safe_ringbuf_init_def rb_stat_is_empty_def)
  have wf: "rb_wf ?rb" by (simp add: rb_wf_def safe_ringbuf_init_def)
  from write_was_empty_iff [OF h] h wf show ?thesis by simp
qed

text \<open>
  Claim C5. Starting from an empty well-formed ring buffer of capacity \<open>max_elems\<close>, any
  sequence of at most \<open>max_elems\<close> writes is accepted write by write; the same number of
  reads that follow each return true and deliver the written elements once each, in the
  order they were written; and the read after the last element returns false and leaves
  the caller's element and the buffer untouched.
\<close>

theorem ringbuf_fifo:
  assumes "rb_wf rb" and "rb_stat_is_empty (stat rb)"
    and "length ws \<le> max_elems rb" and "length ks = length ws"
  shows "\<exists>rb1 rb2.
           write_all rb ws = Inr (replicate (length ws) True, rb1) \<and>
           read_all rb1 out ks = Inr (map (Pair True) (map snd ws), rb2) \<and>
           safe_ringbuf_read_elem k rb2 out' = Inr (False, out', rb2)"
proof -
  have e: "rb_unread rb = []" "rb_count rb = 0"
    using assms(1,2) by (simp_all add: rb_unread_empty [symmetric] rb_count_empty [symmetric])
  then obtain rb1 where
    w: "write_all rb ws = Inr (replicate (length ws) True, rb1)"
    and wf1: "rb_wf rb1" and u1: "rb_unread rb1 = map snd ws @ []"
    using write_all_accepted [of rb ws] assms(1,3) by auto
  from read_all_fifo [OF wf1 u1, of ks out] assms(4) obtain rb2 where
    r: "read_all rb1 out ks = Inr (map (Pair True) (map snd ws), rb2)"
    and wf2: "rb_wf rb2" and u2: "rb_unread rb2 = []"
    by auto
  have "safe_ringbuf_read_elem k rb2 out' = Inr (False, out', rb2)"
    using wf2 u2 by (rule read_rejected)
  with w r show ?thesis by blast
qed

theorem ringbuf_fifo_witness:
  "rb_wf (safe_ringbuf_init 3 4 (\<lambda>_. 0 :: nat)) \<and>
   rb_stat_is_empty (stat (safe_ringbuf_init 3 4 (\<lambda>_. 0 :: nat))) \<and>
   length [(0, 10), (2, 20), (0, 30 :: nat)] \<le> max_elems (safe_ringbuf_init 3 4 (\<lambda>_. 0 :: nat)) \<and>
   length [1, 0, 0 :: nat] = length [(0, 10), (2, 20), (0, 30 :: nat)] \<and>
   (\<exists>rb1 rb2.
      write_all (safe_ringbuf_init 3 4 (\<lambda>_. 0 :: nat)) [(0, 10), (2, 20), (0, 30)] =
        Inr ([True, True, True], rb1) \<and>
      read_all rb1 0 [1, 0, 0] = Inr ([(True, 10), (True, 20), (True, 30)], rb2) \<and>
      safe_ringbuf_read_elem 0 rb2 99 = Inr (False, 99, rb2))"
proof -
  let ?rb = "safe_ringbuf_init 3 4 (\<lambda>_. 0 :: nat)"
  have wf: "rb_wf ?rb" by (simp add: rb_wf_def safe_ringbuf_init_def)
  have e: "rb_stat_is_empty (stat ?rb)" by (simp add: rb_stat_is_empty_def safe_ringbuf_init_def)
  have l: "length [(0, 10), (2, 20), (0, 30 :: nat)] \<le> max_elems ?rb"
    by (simp add: safe_ringbuf_init_def)
  have k: "length [1, 0, 0 :: nat] = length [(0, 10), (2, 20), (0, 30 :: nat)]" by simp
  from ringbuf_fifo [OF wf e l k, of 0 0 99] wf e l k show ?thesis
    by (simp add: numeral_3_eq_3)
qed

section \<open>The child-wait protocol (kernel/waitpid.c)\<close>

subsection \<open>Tasks, processes and the rest of the kernel\<close>

text \<open>
  Modelled from the spec: the task and process structures and the wait object are declared
  in headers (\<open>process.h\<close>, \<open>process_int.h\<close>) that are not among the sources. The spec
  gives a task a state, an exit status kept until the task is reaped, and a wait object
  with a kind, a payload (the encoded pid selector) and a place in the wait list of the
  task it waits for; it gives a process an id, a parent id, a group id and a list of
  children. Every process has one task here, so one record holds both; the fields reached
  through \<open>ti->pi\<close> carry the prefix \<open>pi_\<close>. The kernel state maps a task id to its task,
  as \<open>get_task\<close> does, so a pointer to a task is its task id and \<open>ti->tid\<close> is that id; the
  list of children and the wait lists hold task ids in list order.
\<close>

datatype task_state =
  TASK_STATE_RUNNABLE | TASK_STATE_RUNNING | TASK_STATE_SLEEPING | TASK_STATE_ZOMBIE

datatype wo_type = WOBJ_NONE | WOBJ_KMUTEX | WOBJ_KCOND | WOBJ_TASK

record wait_obj =
  wobj_type :: wo_type
  wobj_ptr :: int

record task =
  pi_pid :: int
  pi_pgid :: int
  pi_parent_pid :: int
  pi_children :: "int list"
  state :: task_state
  exit_wstatus :: int
  wobj :: wait_obj
  tasks_waiting_list :: "int list"

text \<open>
  The kernel state: the task table behind \<open>get_task\<close>, the current task, the nesting
  depth of \<open>disable_preemption\<close>, and the user address space of the caller, where an
  address is mapped to the 32-bit value stored there, or to nothing when the address is
  not accessible.
\<close>

record kernel =
  tasks :: "int \<rightharpoonup> task"
  curr_tid :: int
  disable_preemption_count :: nat
  user_mem :: "nat \<rightharpoonup> int"

text \<open>
  Modelled from the spec: \<open>errno.h\<close> and \<open>sys/wait.h\<close> are not among the sources; the error
  kinds "no such child" and "fault copying result" and the option \<open>WNOHANG\<close> have the values
  of the Linux system call interface.
\<close>

definition ECHILD :: int where "ECHILD = 10"
definition EFAULT :: int where "EFAULT = 14"
definition WNOHANG :: int where "WNOHANG = 1"

definition get_task :: "kernel \<Rightarrow> int \<Rightarrow> task option" where
  "get_task k t = tasks k t"

definition get_curr_task :: "kernel \<Rightarrow> task option" where
  "get_curr_task k = tasks k (curr_tid k)"

definition disable_preemption :: "kernel \<Rightarrow> kernel" where
  "disable_preemption k = k\<lparr>disable_preemption_count := disable_preemption_count k + 1\<rparr>"

definition enable_preemption :: "kernel \<Rightarrow> kernel" where
  "enable_preemption k = k\<lparr>disable_preemption_count := disable_preemption_count k - 1\<rparr>"

definition update_task :: "int \<Rightarrow> (task \<Rightarrow> task) \<Rightarrow> kernel \<Rightarrow> kernel" where
  "update_task t f k = k\<lparr>tasks := (\<lambda>x. if x = t then map_option f (tasks k x) else tasks k x)\<rparr>"

text \<open>
  Modelled from the spec: \<open>task_set_wait_obj\<close> and \<open>task_reset_wait_obj\<close> are defined
  outside the sources. \<open>task_set_wait_obj\<close> stores the kind and the payload in the task's wait object, links
  the wait object at the end of the given wait list (when there is one) and puts the task
  to sleep. \<open>task_reset_wait_obj\<close> undoes it: the wait object leaves the wait list that
  holds it, is cleared, and the task becomes runnable.
\<close>

definition task_set_wait_obj :: "int \<Rightarrow> wo_type \<Rightarrow> int \<Rightarrow> int option \<Rightarrow> kernel \<Rightarrow> kernel" where
  "task_set_wait_obj t ty p wait_list k =
     (let k1 = update_task t
                 (\<lambda>ti. ti\<lparr>wobj := \<lparr>wobj_type = ty, wobj_ptr = p\<rparr>, state := TASK_STATE_SLEEPING\<rparr>) k
      in case wait_list of
           None \<Rightarrow> k1
         | Some w \<Rightarrow>
             update_task w (\<lambda>ti. ti\<lparr>tasks_waiting_list := tasks_waiting_list ti @ [t]\<rparr>) k1)"

definition task_reset_wait_obj :: "int \<Rightarrow> kernel \<Rightarrow> kernel" where
  "task_reset_wait_obj t k =
     k\<lparr>tasks := (\<lambda>x. map_option
         (\<lambda>ti. if x = t
               then ti\<lparr>wobj := \<lparr>wobj_type = WOBJ_NONE, wobj_ptr = 0\<rparr>,
                       state := TASK_STATE_RUNNABLE,
                       tasks_waiting_list := removeAll t (tasks_waiting_list ti)\<rparr>
               else ti\<lparr>tasks_waiting_list := removeAll t (tasks_waiting_list ti)\<rparr>)
         (tasks k x))\<rparr>"

text \<open>
  Modelled from the spec: \<open>remove_task\<close> is defined outside the sources. It takes a reaped
  zombie out of the process tree: out of the task table and
  out of every list of children.
\<close>

definition remove_task :: "int \<Rightarrow> kernel \<Rightarrow> kernel" where
  "remove_task ch k =
     k\<lparr>tasks := (\<lambda>x. if x = ch then None
                       else map_option (\<lambda>ti. ti\<lparr>pi_children := removeAll ch (pi_children ti)\<rparr>)
                              (tasks k x))\<rparr>"

text \<open>
  Modelled from the spec: \<open>copy_to_user\<close>, the user-memory copy primitive, is defined outside
  the sources. Here it copies one 32-bit value: it fails (a negative return value, here \<open>None\<close>)
  when the user address is not accessible.
\<close>

definition copy_to_user :: "nat \<Rightarrow> int \<Rightarrow> kernel \<Rightarrow> kernel option" where
  "copy_to_user addr v k =
     (case user_mem k addr of
        None \<Rightarrow> None
      | Some _ \<Rightarrow> Some (k\<lparr>user_mem := (user_mem k)(addr \<mapsto> v)\<rparr>))"

subsection \<open>sys_waitpid\<close>

definition waitpid_should_skip_child :: "task \<Rightarrow> task \<Rightarrow> int \<Rightarrow> bool" where
  "waitpid_should_skip_child curr_task pos pid =
     (if pid > 0 then pi_pid pos \<noteq> pid
      else if pid < -1 then pi_pgid pos \<noteq> - pid
      else if pid = 0 then pi_pgid pos \<noteq> pi_pgid curr_task
      else False)"

text \<open>
  \<open>waitpid_get_changed_task\<close> returns its argument, the pointer \<open>t\<close> to the task \<open>ti\<close>, or
  the null pointer.
\<close>

definition waitpid_get_changed_task :: "int \<Rightarrow> task \<Rightarrow> int \<Rightarrow> int option" where
  "waitpid_get_changed_task t ti opts =
     (if state ti = TASK_STATE_ZOMBIE then Some t else None)"

text \<open>
  The scan of the caller's children (\<open>list_for_each_ro\<close>): the result is \<open>chtask\<close> and
  \<open>child_count\<close> as the loop leaves them. A child id without a task cannot occur in the
  kernel's list, which links the process structures themselves; the scan passes over it.
\<close>

fun scan_children ::
  "kernel \<Rightarrow> task \<Rightarrow> int \<Rightarrow> int \<Rightarrow> int list \<Rightarrow> nat \<Rightarrow> int option \<times> nat"
where
  "scan_children k curr_task pid opts [] child_count = (None, child_count)"
| "scan_children k curr_task pid opts (c # cs) child_count =
     (case tasks k c of
        None \<Rightarrow> scan_children k curr_task pid opts cs child_count
      | Some pos \<Rightarrow>
          if waitpid_should_skip_child curr_task pos pid
          then scan_children k curr_task pid opts cs child_count
          else
            (case waitpid_get_changed_task c pos opts of
               Some chtask \<Rightarrow> (Some chtask, child_count + 1)
             | None \<Rightarrow> scan_children k curr_task pid opts cs (child_count + 1)))"

text \<open>
  One pass through the body of the \<open>while (true)\<close> loop. It returns to the caller, leaves
  the loop with a zombie child found (preemption still disabled), or installs the wait
  object and yields. \<open>Fault\<close> stands for the dereference of a task that does not exist.
\<close>

datatype waitpid_step =
  Return int kernel | Found int kernel | Blocked kernel | Fault

definition sys_waitpid_iter :: "kernel \<Rightarrow> int \<Rightarrow> int \<Rightarrow> waitpid_step" where
  "sys_waitpid_iter k0 pid opts =
     (case get_curr_task k0 of
        None \<Rightarrow> Fault
      | Some curr_task \<Rightarrow>
          let k = disable_preemption k0;
              waited_task = (if pid > 0 then get_task k pid else None)
          in
          if pid > 0 \<and>
             (case waited_task of
                None \<Rightarrow> True
              | Some wt \<Rightarrow> pi_parent_pid wt \<noteq> pi_pid curr_task)
          then Return (- ECHILD) (enable_preemption k)
          else
            let wait_list = (if pid > 0 then Some pid else None);
                (chtask, child_count) = scan_children k curr_task pid opts (pi_children curr_task) 0
            in
            (case chtask of
               Some ch \<Rightarrow> Found ch k
             | None \<Rightarrow>
                 let k = enable_preemption k in
                 if and opts WNOHANG \<noteq> 0 then Return 0 k
                 else if child_count = 0 then Return (- ECHILD) k
                 else Blocked (task_set_wait_obj (curr_tid k) WOBJ_TASK pid wait_list k)))"

text \<open>
  The code after the loop: the exit status goes to the user location (when one is given;
  address 0 is the null pointer), the zombie is removed, preemption is enabled again.
\<close>

definition sys_waitpid_finish :: "int \<Rightarrow> nat \<Rightarrow> kernel \<Rightarrow> (int \<times> kernel) option" where
  "sys_waitpid_finish chtask user_wstatus k =
     (case tasks k chtask of
        None \<Rightarrow> None
      | Some ch \<Rightarrow>
          let chtask_tid = chtask;
              (chtask_tid, k) =
                (if user_wstatus \<noteq> 0
                 then (case copy_to_user user_wstatus (exit_wstatus ch) k of
                         None \<Rightarrow> (- EFAULT, k)
                       | Some k' \<Rightarrow> (chtask_tid, k'))
                 else (chtask_tid, k));
              k = (if state ch = TASK_STATE_ZOMBIE then remove_task chtask k else k)
          in Some (chtask_tid, enable_preemption k))"

text \<open>
  The whole system call. While the caller sleeps in \<open>kernel_yield\<close> the rest of the system
  runs; each entry of the first argument is what it does to the kernel state between one
  yield and the moment the caller runs again. When the list is used up the sleeping caller
  is never resumed.
\<close>

datatype waitpid_result = Returns int kernel | Never_Resumed kernel | Faulted

fun sys_waitpid ::
  "(kernel \<Rightarrow> kernel) list \<Rightarrow> kernel \<Rightarrow> int \<Rightarrow> nat \<Rightarrow> int \<Rightarrow> waitpid_result"
where
  "sys_waitpid env k pid user_wstatus opts =
     (case sys_waitpid_iter k pid opts of
        Fault \<Rightarrow> Faulted
      | Return rc k' \<Rightarrow> Returns rc k'
      | Found chtask k' \<Rightarrow>
          (case sys_waitpid_finish chtask user_wstatus k' of
             None \<Rightarrow> Faulted
           | Some (rc, k'') \<Rightarrow> Returns rc k'')
      | Blocked k' \<Rightarrow>
          (case env of
             [] \<Rightarrow> Never_Resumed k'
           | f # env' \<Rightarrow> sys_waitpid env' (f k') pid user_wstatus opts))"

declare sys_waitpid.simps [simp del]

text \<open>
  The kernel state in which the last pass of the loop of a call starts: the state of the
  call when the first pass does not block, and otherwise the state that the rest of the
  system has left when the caller runs again for its last pass.
\<close>

fun last_pass :: "(kernel \<Rightarrow> kernel) list \<Rightarrow> kernel \<Rightarrow> int \<Rightarrow> int \<Rightarrow> kernel" where
  "last_pass env k pid opts =
     (case sys_waitpid_iter k pid opts of
        Blocked k' \<Rightarrow> (case env of [] \<Rightarrow> k | f # env' \<Rightarrow> last_pass env' (f k') pid opts)
      | _ \<Rightarrow> k)"

declare last_pass.simps [simp del]

subsection \<open>Waking the waiters of a task that became a zombie\<close>

definition task_is_waiting_on_multiple_children :: "task \<Rightarrow> bool" where
  "task_is_waiting_on_multiple_children ti =
     (if state ti \<noteq> TASK_STATE_SLEEPING then False
      else if wobj_type (wobj ti) \<noteq> WOBJ_TASK then False
      else wobj_ptr (wobj ti) < 0)"

text \<open>
  \<open>wake_up_tasks_waiting_on\<close>: \<open>None\<close> stands for the dereference of a task that does not
  exist (the argument itself, or the parent that \<open>get_task\<close> did not find).
\<close>

definition wake_up_tasks_waiting_on :: "int \<Rightarrow> kernel \<Rightarrow> kernel option" where
  "wake_up_tasks_waiting_on t k =
     (case get_task k t of
        None \<Rightarrow> None
      | Some ti \<Rightarrow>
          let k1 = fold task_reset_wait_obj (tasks_waiting_list ti) k in
          if pi_parent_pid ti > 0
          then (case get_task k1 (pi_parent_pid ti) of
                  None \<Rightarrow> None
                | Some parent_task \<Rightarrow>
                    if task_is_waiting_on_multiple_children parent_task
                    then Some (task_reset_wait_obj (pi_parent_pid ti) k1)
                    else Some k1)
          else Some k1)"


subsection \<open>Facts about the scan and about one pass of the loop\<close>

lemma scan_children_found:
  "scan_children k curr_task pid opts cs n = (Some c, m) \<Longrightarrow>
   \<exists>ti. tasks k c = Some ti \<and> state ti = TASK_STATE_ZOMBIE \<and> c \<in> set cs \<and>
        \<not> waitpid_should_skip_child curr_task ti pid"
  by (induction cs arbitrary: n)
     (auto simp: waitpid_get_changed_task_def split: option.splits if_splits)

lemma scan_children_none_matching:
  "\<forall>c \<in> set cs. \<forall>ti. tasks k c = Some ti \<longrightarrow> waitpid_should_skip_child curr_task ti pid \<Longrightarrow>
   scan_children k curr_task pid opts cs n = (None, n)"
  by (induction cs arbitrary: n) (auto split: option.splits)

lemma sys_waitpid_iter_found:
  assumes "sys_waitpid_iter k pid opts = Found ch k1"
  shows "k1 = disable_preemption k \<and>
         (\<exists>ti. tasks k ch = Some ti \<and> state ti = TASK_STATE_ZOMBIE)"
proof -
  obtain curr_task where c: "get_curr_task k = Some curr_task"
    using assms by (auto simp: sys_waitpid_iter_def split: option.splits)
  obtain m where "scan_children (disable_preemption k) curr_task pid opts (pi_children curr_task) 0 = (Some ch, m)"
    and "k1 = disable_preemption k"
    using assms c
    by (auto simp: sys_waitpid_iter_def Let_def split: option.splits if_splits prod.splits)
  then show ?thesis
    using scan_children_found [of "disable_preemption k" curr_task pid opts "pi_children curr_task" 0 ch m]
    by (auto simp: disable_preemption_def)
qed

lemma sys_waitpid_last_pass:
  "sys_waitpid_iter (last_pass env k pid opts) pid opts = Found ch k1 \<Longrightarrow>
   sys_waitpid env k pid user_wstatus opts =
     (case sys_waitpid_finish ch user_wstatus k1 of
        None \<Rightarrow> Faulted
      | Some (rc, k2) \<Rightarrow> Returns rc k2)"
proof (induction env arbitrary: k)
  case Nil
  then show ?case
    by (cases "sys_waitpid_iter k pid opts")
      (simp_all add: last_pass.simps [of "[]" k] sys_waitpid.simps [of "[]" k])
next
  case (Cons f env)
  show ?case
  proof (cases "sys_waitpid_iter k pid opts")
    case (Blocked k')
    with Cons.prems have "sys_waitpid_iter (last_pass env (f k') pid opts) pid opts = Found ch k1"
      by (simp add: last_pass.simps [of "f # env" k])
    from Cons.IH [OF this] Blocked show ?thesis
      by (simp add: sys_waitpid.simps [of "f # env" k])
  qed (use Cons.prems in \<open>simp_all add: last_pass.simps [of "f # env" k]
      sys_waitpid.simps [of "f # env" k]\<close>)
qed

subsection \<open>Small process trees\<close>

text \<open>
  \<open>childless\<close> is a kernel whose only task, the caller, has no children.
  \<open>parent_and_child\<close> is the caller (task 1) with one child (task 2) of the same process
  group, the child in the given state; the only accessible user address is 4096.
  \<open>child_exits\<close> is the state change of a task that terminates, before the exit path
  calls \<open>wake_up_tasks_waiting_on\<close>.
\<close>

definition idle_task :: task where
  "idle_task =
     \<lparr>pi_pid = 1, pi_pgid = 1, pi_parent_pid = 0, pi_children = [],
      state = TASK_STATE_RUNNING, exit_wstatus = 0,
      wobj = \<lparr>wobj_type = WOBJ_NONE, wobj_ptr = 0\<rparr>, tasks_waiting_list = []\<rparr>"

definition parent_and_child :: "task_state \<Rightarrow> kernel" where
  "parent_and_child child_state =
     \<lparr>tasks = [1 \<mapsto> idle_task\<lparr>pi_children := [2]\<rparr>,
               2 \<mapsto> idle_task\<lparr>pi_pid := 2, pi_parent_pid := 1, state := child_state,
                              exit_wstatus := 7\<rparr>],
      curr_tid = 1, disable_preemption_count = 0, user_mem = [4096 \<mapsto> 0]\<rparr>"

definition childless :: kernel where
  "childless =
     \<lparr>tasks = [1 \<mapsto> idle_task], curr_tid = 1, disable_preemption_count = 0,
      user_mem = Map.empty\<rparr>"

definition child_exits :: "int \<Rightarrow> kernel \<Rightarrow> kernel" where
  "child_exits t k = update_task t (\<lambda>ti. ti\<lparr>state := TASK_STATE_ZOMBIE\<rparr>) k"

text \<open>
  \<open>exit_of\<close> is what the rest of the system does when a task terminates: the task becomes a
  zombie and the exit path calls \<open>wake_up_tasks_waiting_on\<close>.
\<close>

definition exit_of :: "int \<Rightarrow> kernel \<Rightarrow> kernel" where
  "exit_of t k =
     (case wake_up_tasks_waiting_on t (child_exits t k) of
        None \<Rightarrow> child_exits t k
      | Some k' \<Rightarrow> k')"

lemma blocked_iter:
  "pid = 0 \<or> pid = -1 \<Longrightarrow> sys_waitpid_iter (parent_and_child TASK_STATE_RUNNING) pid 0 =
     Blocked (task_set_wait_obj 1 WOBJ_TASK pid None (parent_and_child TASK_STATE_RUNNING))"
  by (auto simp add: sys_waitpid_iter_def parent_and_child_def get_curr_task_def
      disable_preemption_def enable_preemption_def idle_task_def waitpid_should_skip_child_def
      waitpid_get_changed_task_def)



subsection \<open>Claims about the child-wait protocol\<close>

text \<open>
  Claim C9. Whenever a call of \<open>sys_waitpid\<close> finds a zombie child, in its first pass or
  in a pass after the caller has slept, and the copy of the exit status to the user
  location fails, the call returns \<open>-EFAULT\<close> and the zombie is removed from the process
  tree all the same: it is no longer in the task table nor in any list of children, so its
  exit status is gone. User memory and the preemption count are as they were when that
  pass began.
\<close>

theorem waitpid_fault_still_reaps:
  assumes "sys_waitpid_iter (last_pass env k pid opts) pid opts = Found ch k1"
    and "user_wstatus \<noteq> 0" and "user_mem (last_pass env k pid opts) user_wstatus = None"
  shows "\<exists>k2 ti. sys_waitpid env k pid user_wstatus opts = Returns (- EFAULT) k2 \<and>
           tasks (last_pass env k pid opts) ch = Some ti \<and> state ti = TASK_STATE_ZOMBIE \<and>
           tasks k2 ch = None \<and>
           (\<forall>t ti. tasks k2 t = Some ti \<longrightarrow> ch \<notin> set (pi_children ti)) \<and>
           user_mem k2 = user_mem (last_pass env k pid opts) \<and>
           disable_preemption_count k2 = disable_preemption_count (last_pass env k pid opts)"
proof -
  let ?kp = "last_pass env k pid opts"
  from sys_waitpid_iter_found [OF assms(1)] obtain ti where
    k1: "k1 = disable_preemption ?kp" and ti: "tasks ?kp ch = Some ti" "state ti = TASK_STATE_ZOMBIE"
    by blast
  have copy: "copy_to_user user_wstatus (exit_wstatus ti) k1 = None"
    using assms(3) by (simp add: copy_to_user_def k1 disable_preemption_def)
  have fin: "sys_waitpid_finish ch user_wstatus k1 =
      Some (- EFAULT, enable_preemption (remove_task ch k1))"
    using ti assms(2) copy by (simp add: sys_waitpid_finish_def k1 disable_preemption_def)
  have "sys_waitpid env k pid user_wstatus opts =
      Returns (- EFAULT) (enable_preemption (remove_task ch k1))"
    using sys_waitpid_last_pass [OF assms(1), of user_wstatus] fin by simp
  moreover have "tasks (enable_preemption (remove_task ch k1)) ch = None"
    by (simp add: enable_preemption_def remove_task_def)
  moreover have "\<forall>t ti. tasks (enable_preemption (remove_task ch k1)) t = Some ti \<longrightarrow>
      ch \<notin> set (pi_children ti)"
    by (auto simp: enable_preemption_def remove_task_def split: if_splits)
  moreover have "user_mem (enable_preemption (remove_task ch k1)) = user_mem ?kp"
    by (simp add: enable_preemption_def remove_task_def k1 disable_preemption_def)
  moreover have "disable_preemption_count (enable_preemption (remove_task ch k1)) =
      disable_preemption_count ?kp"
    by (simp add: enable_preemption_def remove_task_def k1 disable_preemption_def)
  ultimately show ?thesis using ti by blast
qed

theorem waitpid_fault_still_reaps_witness:
  "(case sys_waitpid_iter (parent_and_child TASK_STATE_RUNNING) (-1) 0 of
      Blocked k1 \<Rightarrow> True | _ \<Rightarrow> False) \<and>
   sys_waitpid_iter (last_pass [exit_of 2] (parent_and_child TASK_STATE_RUNNING) (-1) 0) (-1) 0 =
     Found 2 (disable_preemption
       (last_pass [exit_of 2] (parent_and_child TASK_STATE_RUNNING) (-1) 0)) \<and>
   (8192 :: nat) \<noteq> 0 \<and>
   user_mem (last_pass [exit_of 2] (parent_and_child TASK_STATE_RUNNING) (-1) 0) 8192 = None \<and>
   (\<exists>k2 ti.
      sys_waitpid [exit_of 2] (parent_and_child TASK_STATE_RUNNING) (-1) 8192 0 =
        Returns (- EFAULT) k2 \<and>
      tasks (last_pass [exit_of 2] (parent_and_child TASK_STATE_RUNNING) (-1) 0) 2 = Some ti \<and>
      state ti = TASK_STATE_ZOMBIE \<and>
      tasks k2 2 = None \<and>
      (\<forall>t ti. tasks k2 t = Some ti \<longrightarrow> 2 \<notin> set (pi_children ti)) \<and>
      user_mem k2 =
        user_mem (last_pass [exit_of 2] (parent_and_child TASK_STATE_RUNNING) (-1) 0) \<and>
      disable_preemption_count k2 =
        disable_preemption_count
          (last_pass [exit_of 2] (parent_and_child TASK_STATE_RUNNING) (-1) 0))"
proof -
  let ?k = "parent_and_child TASK_STATE_RUNNING"
  let ?k1 = "task_set_wait_obj 1 WOBJ_TASK (-1) None ?k"
  let ?k2 = "task_reset_wait_obj 1 (child_exits 2 ?k1)"
  have b: "sys_waitpid_iter ?k (-1) 0 = Blocked ?k1" by (simp add: blocked_iter)
  have e: "exit_of 2 ?k1 = ?k2"
    by (simp add: exit_of_def wake_up_tasks_waiting_on_def child_exits_def task_set_wait_obj_def
        update_task_def parent_and_child_def get_task_def idle_task_def
        task_is_waiting_on_multiple_children_def)
  have f: "sys_waitpid_iter ?k2 (-1) 0 = Found 2 (disable_preemption ?k2)"
    by (simp add: sys_waitpid_iter_def get_curr_task_def get_task_def task_reset_wait_obj_def
        child_exits_def task_set_wait_obj_def update_task_def parent_and_child_def idle_task_def
        disable_preemption_def waitpid_should_skip_child_def waitpid_get_changed_task_def)
  have lp: "last_pass [exit_of 2] ?k (-1) 0 = ?k2"
    by (simp add: last_pass.simps [of "[exit_of 2]" ?k] b e last_pass.simps [of "[]" ?k2] f)
  have u: "user_mem ?k2 8192 = None"
    by (simp add: task_reset_wait_obj_def child_exits_def task_set_wait_obj_def update_task_def
        parent_and_child_def)
  have n: "(8192 :: nat) \<noteq> 0" by simp
  from waitpid_fault_still_reaps [of "[exit_of 2]" ?k "-1" 0 2 "disable_preemption ?k2" 8192]
    f u b show ?thesis
    by (simp add: lp)
qed

text \<open>
  Claim C1 says that a call with no matching child fails with \<open>-ECHILD\<close>, and that 0 is
  returned under \<open>WNOHANG\<close> only when matching children exist. \<open>sys_waitpid\<close> tests
  \<open>WNOHANG\<close> before it tests \<open>child_count\<close>: for a caller without children,
  \<open>sys_waitpid(-1, NULL, WNOHANG)\<close> returns 0. The same caller gets \<open>-ECHILD\<close> without
  \<open>WNOHANG\<close>, and with \<open>WNOHANG\<close> when the selector is a positive pid, where the test
  of the waited task comes first.
\<close>

theorem waitpid_wnohang_without_children:
  "sys_waitpid [] childless (-1) 0 WNOHANG = Returns 0 childless \<and>
   sys_waitpid [] childless (-1) 0 0 = Returns (- ECHILD) childless \<and>
   sys_waitpid [] childless 5 0 WNOHANG = Returns (- ECHILD) childless"
proof -
  have "sys_waitpid_iter childless (-1) WNOHANG = Return 0 childless"
    by (simp add: sys_waitpid_iter_def childless_def get_curr_task_def disable_preemption_def
        enable_preemption_def idle_task_def WNOHANG_def)
  moreover have "sys_waitpid_iter childless (-1) 0 = Return (- ECHILD) childless"
    by (simp add: sys_waitpid_iter_def childless_def get_curr_task_def disable_preemption_def
        enable_preemption_def idle_task_def)
  moreover have "sys_waitpid_iter childless 5 WNOHANG = Return (- ECHILD) childless"
    by (simp add: sys_waitpid_iter_def childless_def get_curr_task_def get_task_def
        disable_preemption_def enable_preemption_def idle_task_def)
  ultimately show ?thesis
    by (simp add: sys_waitpid.simps [of "[]" childless])
qed

text \<open>
  Claim C2 says that \<open>wake_up_tasks_waiting_on\<close> wakes the parent of the new zombie
  whenever the parent is blocked with a pid selector of 0, -1 or below -1.
  \<open>task_is_waiting_on_multiple_children\<close> tests the stored selector for \<open>< 0\<close>, so a
  parent blocked in \<open>sys_waitpid(0, ...)\<close>, which is in no wait list, stays asleep when
  its child becomes a zombie; a parent blocked in \<open>sys_waitpid(-1, ...)\<close> is woken.
\<close>

theorem parent_waiting_for_own_group_not_woken:
  "\<exists>k1 k2.
     sys_waitpid_iter (parent_and_child TASK_STATE_RUNNING) 0 0 = Blocked k1 \<and>
     wake_up_tasks_waiting_on 2 (child_exits 2 k1) = Some k2 \<and>
     map_option state (tasks k1 1) = Some TASK_STATE_SLEEPING \<and>
     map_option wobj (tasks k1 1) = Some \<lparr>wobj_type = WOBJ_TASK, wobj_ptr = 0\<rparr> \<and>
     map_option state (tasks k2 2) = Some TASK_STATE_ZOMBIE \<and>
     map_option state (tasks k2 1) = Some TASK_STATE_SLEEPING"
proof -
  let ?k1 = "task_set_wait_obj 1 WOBJ_TASK 0 None (parent_and_child TASK_STATE_RUNNING)"
  have "sys_waitpid_iter (parent_and_child TASK_STATE_RUNNING) 0 0 = Blocked ?k1"
    by (simp add: blocked_iter)
  moreover have "wake_up_tasks_waiting_on 2 (child_exits 2 ?k1) = Some (child_exits 2 ?k1)"
    by (simp add: wake_up_tasks_waiting_on_def child_exits_def task_set_wait_obj_def
        update_task_def parent_and_child_def get_task_def idle_task_def
        task_is_waiting_on_multiple_children_def)
  moreover have "map_option state (tasks ?k1 1) = Some TASK_STATE_SLEEPING"
    "map_option wobj (tasks ?k1 1) = Some \<lparr>wobj_type = WOBJ_TASK, wobj_ptr = 0\<rparr>"
    "map_option state (tasks (child_exits 2 ?k1) 2) = Some TASK_STATE_ZOMBIE"
    "map_option state (tasks (child_exits 2 ?k1) 1) = Some TASK_STATE_SLEEPING"
    by (simp_all add: child_exits_def task_set_wait_obj_def update_task_def parent_and_child_def
        idle_task_def)
  ultimately show ?thesis by blast
qed

lemma parent_waiting_for_any_child_woken:
  "\<exists>k1 k2.
     sys_waitpid_iter (parent_and_child TASK_STATE_RUNNING) (-1) 0 = Blocked k1 \<and>
     wake_up_tasks_waiting_on 2 (child_exits 2 k1) = Some k2 \<and>
     map_option state (tasks k1 1) = Some TASK_STATE_SLEEPING \<and>
     map_option state (tasks k2 1) = Some TASK_STATE_RUNNABLE"
proof -
  let ?k1 = "task_set_wait_obj 1 WOBJ_TASK (-1) None (parent_and_child TASK_STATE_RUNNING)"
  have "sys_waitpid_iter (parent_and_child TASK_STATE_RUNNING) (-1) 0 = Blocked ?k1"
    by (simp add: blocked_iter)
  moreover have "wake_up_tasks_waiting_on 2 (child_exits 2 ?k1) =
      Some (task_reset_wait_obj 1 (child_exits 2 ?k1))"
    by (simp add: wake_up_tasks_waiting_on_def child_exits_def task_set_wait_obj_def
        update_task_def parent_and_child_def get_task_def idle_task_def
        task_is_waiting_on_multiple_children_def)
  moreover have "map_option state (tasks ?k1 1) = Some TASK_STATE_SLEEPING"
    "map_option state (tasks (task_reset_wait_obj 1 (child_exits 2 ?k1)) 1) = Some TASK_STATE_RUNNABLE"
    by (simp_all add: child_exits_def task_set_wait_obj_def update_task_def parent_and_child_def
        idle_task_def task_reset_wait_obj_def)
  ultimately show ?thesis by blast
qed

section \<open>The terminal (kernel/char/term.c)\<close>

subsection \<open>Cells, colours and the video interface\<close>

type_synonym u8 = "8 word"
type_synonym u16 = "16 word"
type_synonym u32 = "32 word"

text \<open>
  Modelled from the spec: \<open>make_vgaentry\<close>, \<open>vgaentry_get_color\<close> and \<open>make_color\<close> are
  macros of headers outside the sources (\<open>color_defs.h\<close>). A buffer cell is a packed
  \<open>{character, colour}\<close> entry: the character in the low byte, the colour in the high byte;
  a colour packs the foreground in its low and the background in its high four bits.
  \<open>vgaentry_get_char\<close> reads the character back.
\<close>

definition make_vgaentry :: "u8 \<Rightarrow> u8 \<Rightarrow> u16" where
  "make_vgaentry c color = or (ucast c) (push_bit 8 (ucast color))"

definition vgaentry_get_color :: "u16 \<Rightarrow> u8" where
  "vgaentry_get_color e = ucast (drop_bit 8 e)"

definition vgaentry_get_char :: "u16 \<Rightarrow> u8" where
  "vgaentry_get_char e = ucast e"

definition make_color :: "u8 \<Rightarrow> u8 \<Rightarrow> u8" where
  "make_color fg bg = or fg (push_bit 4 bg)"

text \<open>
  Modelled from the spec: the default colours and the erase characters are constants of
  headers outside the sources; they have the values of the VGA text mode (light grey on
  black) and of a Linux console (backspace, Ctrl-W, Ctrl-U).
\<close>

definition DEFAULT_FG_COLOR :: u8 where "DEFAULT_FG_COLOR = 7"
definition DEFAULT_BG_COLOR :: u8 where "DEFAULT_BG_COLOR = 0"
definition TERM_ERASE_C :: u8 where "TERM_ERASE_C = 0x08"
definition TERM_WERASE_C :: u8 where "TERM_WERASE_C = 0x17"
definition TERM_KILL_C :: u8 where "TERM_KILL_C = 0x15"

definition term_tab_size :: int where "term_tab_size = 8"

text \<open>
  Modelled from the spec: \<open>round_up_at\<close> is defined outside the sources (\<open>utils.h\<close>); it
  rounds its first argument up to the next multiple of the second, in unsigned machine
  words.
\<close>

definition round_up_at :: "u32 \<Rightarrow> u32 \<Rightarrow> u32" where
  "round_up_at n a = (n + a - 1) div a * a"

text \<open>
  The video backend is used through a table of functions, some of which may be null. The
  record says which of the optional members are present, and whether the functions of the
  table do anything at all: those of \<open>no_output_vi\<close> have empty bodies. A call that
  reaches a backend with output is appended to the list \<open>vi_calls\<close> of the terminal state.
\<close>

record video_interface =
  vi_output :: bool
  scroll_one_line_up :: bool
  flush_buffers :: bool
  redraw_static_elements :: bool
  disable_static_elems_refresh :: bool
  enable_static_elems_refresh :: bool

datatype vi_call =
  Set_Char_At int int u16
| Set_Row int nat bool
| Clear_Row int u8
| Move_Cursor int int u8
| Enable_Cursor
| Disable_Cursor
| Scroll_One_Line_Up
| Flush_Buffers
| Redraw_Static_Elements
| Disable_Static_Elems_Refresh
| Enable_Static_Elems_Refresh

definition no_output_vi :: video_interface where
  "no_output_vi =
     \<lparr>vi_output = False, scroll_one_line_up = True, flush_buffers = True,
      redraw_static_elements = True, disable_static_elems_refresh = True,
      enable_static_elems_refresh = True\<rparr>"

subsection \<open>Terminal actions and the terminal state\<close>

text \<open>
  A terminal action is a kind with up to three arguments. A write action carries the bytes
  of its span and the colour; the relative cursor move carries two signed bytes. The
  absolute cursor move carries the two integers that \<open>term_action_move_ch_and_cur\<close> takes;
  \<open>term_move_ch_and_cur\<close> stores them in unsigned fields of the action, so a dispatched
  move has arguments that are not negative.
\<close>

datatype term_action =
  A_write "u8 list" u8
| A_scroll_up u32
| A_scroll_down u32
| A_set_col_offset u32
| A_move_ch_and_cur int int
| A_move_ch_and_cur_rel u8 u8
| A_reset
| A_erase_in_display int
| A_erase_in_line int
| A_non_buf_scroll_up u32
| A_non_buf_scroll_down u32
| A_pause_video_output
| A_restart_video_output

text \<open>
  The filter hook: from the byte, the colour and its own context to the answer whether the
  byte is to be interpreted, the colour as it leaves it, the action it emits (if any) and
  its context afterwards.
\<close>

type_synonym 'c term_filter_func =
  "u8 \<Rightarrow> u8 \<Rightarrow> 'c \<Rightarrow> bool \<times> u8 \<times> term_action option \<times> 'c"

text \<open>
  The static variables of \<open>term.c\<close>. The scrollback buffer is the memory behind the pointer
  \<open>buffer\<close>, addressed by the index of the cell; the tab bitmap is absent (a null pointer)
  or the memory behind \<open>term_tabs\<close>. \<open>serial_console\<close> says whether \<open>kopt_serial_mode\<close> is
  \<open>TERM_SERIAL_CONSOLE\<close>, and \<open>serial_out\<close> lists the bytes written to the serial port.
\<close>

record 'c term_state =
  term_cols :: u16
  term_rows :: u16
  current_row :: u16
  current_col :: u16
  term_col_offset :: u16
  vi :: video_interface
  saved_vi :: video_interface
  buffer :: "nat \<Rightarrow> u16"
  scroll :: u32
  max_scroll :: u32
  total_buffer_rows :: u32
  extra_buffer_rows :: u32
  term_tabs :: "(int \<Rightarrow> bool) option"
  filter_func :: "'c term_filter_func option"
  filter_ctx :: 'c
  serial_console :: bool
  vi_calls :: "vi_call list"
  serial_out :: "u8 list"

definition vi_do :: "vi_call \<Rightarrow> 'c term_state \<Rightarrow> 'c term_state" where
  "vi_do c t = (if vi_output (vi t) then t\<lparr>vi_calls := vi_calls t @ [c]\<rparr> else t)"

definition vi_flush_buffers :: "'c term_state \<Rightarrow> 'c term_state" where
  "vi_flush_buffers t = (if flush_buffers (vi t) then vi_do Flush_Buffers t else t)"

subsection \<open>The scrollback buffer\<close>

definition buffer_index :: "'c term_state \<Rightarrow> int \<Rightarrow> int \<Rightarrow> nat" where
  "buffer_index t row col =
     unat ((word_of_int row + scroll t) mod total_buffer_rows t * ucast (term_cols t)
           + word_of_int col :: u32)"

definition buffer_set_entry :: "int \<Rightarrow> int \<Rightarrow> u16 \<Rightarrow> 'c term_state \<Rightarrow> 'c term_state" where
  "buffer_set_entry row col e t = t\<lparr>buffer := (buffer t)(buffer_index t row col := e)\<rparr>"

definition buffer_get_entry :: "'c term_state \<Rightarrow> int \<Rightarrow> int \<Rightarrow> u16" where
  "buffer_get_entry t row col = buffer t (buffer_index t row col)"

definition ts_is_at_bottom :: "'c term_state \<Rightarrow> bool" where
  "ts_is_at_bottom t \<longleftrightarrow> scroll t = max_scroll t"

definition term_redraw :: "'c term_state \<Rightarrow> 'c term_state" where
  "term_redraw t =
     fold (\<lambda>row. vi_do (Set_Row (int row)
                    (unat (ucast (term_cols t) * ((scroll t + of_nat row) mod total_buffer_rows t) :: u32))
                    True))
       [0..<unat (term_rows t)] t"

definition ts_set_scroll :: "u32 \<Rightarrow> 'c term_state \<Rightarrow> 'c term_state" where
  "ts_set_scroll requested_scroll t =
     (let min_scroll = (if max_scroll t > extra_buffer_rows t
                        then max_scroll t - extra_buffer_rows t else 0);
          requested_scroll = min (max requested_scroll min_scroll) (max_scroll t)
      in if requested_scroll = scroll t then t
         else term_redraw (t\<lparr>scroll := requested_scroll\<rparr>))"

definition ts_scroll_up :: "u32 \<Rightarrow> 'c term_state \<Rightarrow> 'c term_state" where
  "ts_scroll_up lines t =
     (if lines > scroll t then ts_set_scroll 0 t else ts_set_scroll (scroll t - lines) t)"

definition ts_scroll_down :: "u32 \<Rightarrow> 'c term_state \<Rightarrow> 'c term_state" where
  "ts_scroll_down lines t = ts_set_scroll (scroll t + lines) t"

definition ts_scroll_to_bottom :: "'c term_state \<Rightarrow> 'c term_state" where
  "ts_scroll_to_bottom t =
     (if scroll t \<noteq> max_scroll t then ts_set_scroll (max_scroll t) t else t)"

text \<open>\<open>memset16\<close> of one row of the buffer, and the \<open>memcpy\<close> of one row onto another.\<close>

definition ts_buf_clear_row :: "int \<Rightarrow> u8 \<Rightarrow> 'c term_state \<Rightarrow> 'c term_state" where
  "ts_buf_clear_row row color t =
     (let rowb = unat (ucast (term_cols t) * ((word_of_int row + scroll t) mod total_buffer_rows t) :: u32)
      in t\<lparr>buffer := (\<lambda>i. if rowb \<le> i \<and> i < rowb + unat (term_cols t)
                           then make_vgaentry 0x20 color else buffer t i)\<rparr>)"

definition buffer_copy_row :: "u32 \<Rightarrow> u32 \<Rightarrow> 'c term_state \<Rightarrow> 'c term_state" where
  "buffer_copy_row d s t =
     (let dst = unat (ucast (term_cols t) * d :: u32);
          src = unat (ucast (term_cols t) * s :: u32)
      in t\<lparr>buffer := (\<lambda>i. if dst \<le> i \<and> i < dst + unat (term_cols t)
                           then buffer t (src + (i - dst)) else buffer t i)\<rparr>)"

definition ts_clear_row :: "int \<Rightarrow> u8 \<Rightarrow> 'c term_state \<Rightarrow> 'c term_state" where
  "ts_clear_row row color t = vi_do (Clear_Row row color) (ts_buf_clear_row row color t)"

definition vi_move_cursor_to_current :: "'c term_state \<Rightarrow> 'c term_state" where
  "vi_move_cursor_to_current t =
     vi_do (Move_Cursor (uint (current_row t)) (uint (current_col t))
              (vgaentry_get_color
                 (buffer_get_entry t (uint (current_row t)) (uint (current_col t))))) t"

subsection \<open>Scrolling actions and character output\<close>

definition term_action_scroll_up :: "u32 \<Rightarrow> 'c term_state \<Rightarrow> 'c term_state" where
  "term_action_scroll_up lines t =
     (let t = ts_scroll_up lines t;
          t = (if \<not> ts_is_at_bottom t then vi_do Disable_Cursor t
               else vi_move_cursor_to_current (vi_do Enable_Cursor t))
      in vi_flush_buffers t)"

definition term_action_scroll_down :: "u32 \<Rightarrow> 'c term_state \<Rightarrow> 'c term_state" where
  "term_action_scroll_down lines t =
     (let t = ts_scroll_down lines t;
          t = (if ts_is_at_bottom t then vi_move_cursor_to_current (vi_do Enable_Cursor t)
               else t)
      in vi_flush_buffers t)"

definition term_internal_incr_row :: "u8 \<Rightarrow> 'c term_state \<Rightarrow> 'c term_state" where
  "term_internal_incr_row color t =
     (let t = t\<lparr>term_col_offset := 0\<rparr> in
      if uint (current_row t) < uint (term_rows t) - 1
      then t\<lparr>current_row := current_row t + 1\<rparr>
      else
        let t = t\<lparr>max_scroll := max_scroll t + 1\<rparr>;
            t = (if scroll_one_line_up (vi t)
                 then vi_do Scroll_One_Line_Up (t\<lparr>scroll := scroll t + 1\<rparr>)
                 else ts_set_scroll (max_scroll t) t)
        in ts_clear_row (uint (term_rows t) - 1) color t)"

definition term_internal_write_printable_char :: "u8 \<Rightarrow> u8 \<Rightarrow> 'c term_state \<Rightarrow> 'c term_state" where
  "term_internal_write_printable_char c color t =
     (let entry = make_vgaentry c color;
          t = buffer_set_entry (uint (current_row t)) (uint (current_col t)) entry t;
          t = vi_do (Set_Char_At (uint (current_row t)) (uint (current_col t)) entry) t
      in t\<lparr>current_col := current_col t + 1\<rparr>)"

definition term_internal_write_tab :: "u8 \<Rightarrow> 'c term_state \<Rightarrow> 'c term_state" where
  "term_internal_write_tab color t =
     (let rem = uint (term_cols t) - uint (current_col t) - 1 in
      case term_tabs t of
        None \<Rightarrow> (if rem \<noteq> 0 then term_internal_write_printable_char 0x20 color t else t)
      | Some tabs \<Rightarrow>
          let tab_col = sint (min (round_up_at (word_of_int (uint (current_col t) + 1))
                                     (word_of_int term_tab_size))
                                  (ucast (term_cols t) - 2 :: u32))
          in t\<lparr>term_tabs :=
                  Some (tabs(uint (current_row t) * uint (term_cols t) + tab_col := True)),
                current_col := word_of_int (tab_col + 1)\<rparr>)"

text \<open>
  The loop of \<open>term_internal_write_backspace\<close> that walks back over a tab; the first
  argument is the loop counter \<open>i\<close>, which starts at \<open>term_tab_size - 1\<close> and ends the loop
  after the pass with \<open>i = 0\<close>.
\<close>

fun backspace_tab_loop :: "nat \<Rightarrow> (int \<Rightarrow> bool) \<Rightarrow> 'c term_state \<Rightarrow> 'c term_state" where
  "backspace_tab_loop i tabs t =
     (if current_col t = 0 \<or> current_col t = term_col_offset t then t
      else if tabs (uint (current_row t) * uint (term_cols t) + uint (current_col t) - 1) then t
      else case i of
             0 \<Rightarrow> t
           | Suc j \<Rightarrow> backspace_tab_loop j tabs (t\<lparr>current_col := current_col t - 1\<rparr>))"

declare backspace_tab_loop.simps [simp del]

definition term_internal_write_backspace :: "u8 \<Rightarrow> 'c term_state \<Rightarrow> 'c term_state" where
  "term_internal_write_backspace color t =
     (if current_col t = 0 \<or> current_col t \<le> term_col_offset t then t
      else
        let space_entry = make_vgaentry 0x20 color;
            t = t\<lparr>current_col := current_col t - 1\<rparr>;
            here = uint (current_row t) * uint (term_cols t) + uint (current_col t)
        in case term_tabs t of
             None \<Rightarrow>
               vi_do (Set_Char_At (uint (current_row t)) (uint (current_col t)) space_entry)
                 (buffer_set_entry (uint (current_row t)) (uint (current_col t)) space_entry t)
           | Some tabs \<Rightarrow>
               if \<not> tabs here
               then vi_do (Set_Char_At (uint (current_row t)) (uint (current_col t)) space_entry)
                      (buffer_set_entry (uint (current_row t)) (uint (current_col t)) space_entry t)
               else
                 let tabs = tabs(here := False)
                 in backspace_tab_loop (nat (term_tab_size - 1)) tabs
                      (t\<lparr>term_tabs := Some tabs\<rparr>))"

definition term_internal_write_char2 :: "u8 \<Rightarrow> u8 \<Rightarrow> 'c term_state \<Rightarrow> 'c term_state" where
  "term_internal_write_char2 c color t =
     (if serial_console t then t\<lparr>serial_out := serial_out t @ [c]\<rparr>
      else if c = 0x1B \<or> c = 0x07 \<or> c = 0x0B then t
      else if c = 0x0A then term_internal_incr_row color t
      else if c = 0x0D then t\<lparr>current_col := 0\<rparr>
      else if c = 0x09 then term_internal_write_tab color t
      else if c = TERM_ERASE_C then term_internal_write_backspace color t
      else if c = TERM_WERASE_C then t
      else if c = TERM_KILL_C then t
      else
        let t = term_internal_write_printable_char c color t in
        if current_col t = term_cols t
        then term_internal_incr_row color (t\<lparr>current_col := 0\<rparr>)
        else t)"

subsection \<open>The other actions\<close>

definition term_action_set_col_offset :: "u32 \<Rightarrow> 'c term_state \<Rightarrow> 'c term_state" where
  "term_action_set_col_offset off t = t\<lparr>term_col_offset := ucast off\<rparr>"

definition term_action_move_ch_and_cur :: "int \<Rightarrow> int \<Rightarrow> 'c term_state \<Rightarrow> 'c term_state" where
  "term_action_move_ch_and_cur row col t =
     (let t = t\<lparr>current_row := word_of_int (min (max row 0) (uint (term_rows t) - 1))\<rparr>;
          t = t\<lparr>current_col := word_of_int (min (max col 0) (uint (term_cols t) - 1))\<rparr>
      in vi_flush_buffers (vi_move_cursor_to_current t))"

definition term_action_move_ch_and_cur_rel :: "u8 \<Rightarrow> u8 \<Rightarrow> 'c term_state \<Rightarrow> 'c term_state" where
  "term_action_move_ch_and_cur_rel dx dy t =
     (let t = t\<lparr>current_row :=
                  word_of_int (min (max (uint (current_row t) + sint dx) 0) (uint (term_rows t) - 1))\<rparr>;
          t = t\<lparr>current_col :=
                  word_of_int (min (max (uint (current_col t) + sint dy) 0) (uint (term_cols t) - 1))\<rparr>
      in vi_flush_buffers (vi_move_cursor_to_current t))"

definition default_color :: u8 where
  "default_color = make_color DEFAULT_FG_COLOR DEFAULT_BG_COLOR"

definition clear_rows :: "nat \<Rightarrow> nat \<Rightarrow> 'c term_state \<Rightarrow> 'c term_state" where
  "clear_rows lo hi t = fold (\<lambda>i. ts_clear_row (int i) default_color) [lo..<hi] t"

definition erase_cells :: "nat \<Rightarrow> nat \<Rightarrow> 'c term_state \<Rightarrow> 'c term_state" where
  "erase_cells lo hi t =
     fold (\<lambda>col t. vi_do (Set_Char_At (uint (current_row t)) (int col)
                            (make_vgaentry 0x20 default_color))
                     (buffer_set_entry (uint (current_row t)) (int col)
                        (make_vgaentry 0x20 default_color) t))
       [lo..<hi] t"

definition term_action_reset :: "'c term_state \<Rightarrow> 'c term_state" where
  "term_action_reset t =
     (let t = vi_do Enable_Cursor t;
          t = term_action_move_ch_and_cur 0 0 t;
          t = t\<lparr>scroll := 0, max_scroll := 0\<rparr>;
          t = clear_rows 0 (unat (term_rows t)) t
      in case term_tabs t of
           None \<Rightarrow> t
         | Some tabs \<Rightarrow>
             t\<lparr>term_tabs :=
                 Some (\<lambda>i. if 0 \<le> i \<and> i < uint (term_cols t) * uint (term_rows t)
                            then False else tabs i)\<rparr>)"

definition term_action_erase_in_display :: "int \<Rightarrow> 'c term_state \<Rightarrow> 'c term_state" where
  "term_action_erase_in_display mode t =
     (if mode = 0 then
        vi_flush_buffers
          (clear_rows (unat (current_row t) + 1) (unat (term_rows t))
             (erase_cells (unat (current_col t)) (unat (term_cols t)) t))
      else if mode = 1 then
        vi_flush_buffers
          (erase_cells 0 (unat (current_col t))
             (clear_rows 0 (unat (current_row t)) t))
      else if mode = 2 then
        vi_flush_buffers (clear_rows 0 (unat (term_rows t)) t)
      else if mode = 3 then
        (let row = current_row t; col = current_col t;
             t = term_action_reset t
         in vi_flush_buffers (vi_do (Move_Cursor (uint row) (uint col) default_color) t))
      else t)"

definition term_action_erase_in_line :: "int \<Rightarrow> 'c term_state \<Rightarrow> 'c term_state" where
  "term_action_erase_in_line mode t =
     (if mode = 0 then
        vi_flush_buffers (erase_cells (unat (current_col t)) (unat (term_cols t)) t)
      else if mode = 1 then
        vi_flush_buffers (erase_cells 0 (unat (current_col t)) t)
      else if mode = 2 then
        vi_flush_buffers
          (ts_clear_row (uint (current_row t))
             (vgaentry_get_color (make_vgaentry 0x20 default_color)) t)
      else t)"

definition term_action_non_buf_scroll_up :: "u32 \<Rightarrow> 'c term_state \<Rightarrow> 'c term_state" where
  "term_action_non_buf_scroll_up n t =
     (let n = min n (ucast (term_rows t));
          t = fold (\<lambda>row t.
                      buffer_copy_row ((scroll t + of_nat row) mod total_buffer_rows t)
                        ((scroll t + of_nat row + n) mod total_buffer_rows t) t)
                [0..<unat (ucast (term_rows t) - n :: u32)] t;
          t = fold (\<lambda>row. ts_buf_clear_row (int row) default_color)
                [unat (ucast (term_rows t) - n :: u32)..<unat (term_rows t)] t
      in term_redraw t)"

definition term_action_non_buf_scroll_down :: "u32 \<Rightarrow> 'c term_state \<Rightarrow> 'c term_state" where
  "term_action_non_buf_scroll_down n t =
     (let n = min n (ucast (term_rows t));
          t = fold (\<lambda>row t.
                      buffer_copy_row ((scroll t + of_nat row + n) mod total_buffer_rows t)
                        ((scroll t + of_nat row) mod total_buffer_rows t) t)
                (rev [0..<nat (sint (ucast (term_rows t) - n - 1 :: u32) + 1)]) t;
          t = fold (\<lambda>row. ts_buf_clear_row (int row) default_color) [0..<unat n] t
      in term_redraw t)"

definition term_action_pause_video_output :: "'c term_state \<Rightarrow> 'c term_state" where
  "term_action_pause_video_output t =
     (let t = (if disable_static_elems_refresh (vi t)
               then vi_do Disable_Static_Elems_Refresh t else t);
          t = vi_do Disable_Cursor t
      in t\<lparr>saved_vi := vi t, vi := no_output_vi\<rparr>)"

definition term_action_restart_video_output :: "'c term_state \<Rightarrow> 'c term_state" where
  "term_action_restart_video_output t =
     (let t = t\<lparr>vi := saved_vi t\<rparr>;
          t = term_redraw t;
          t = vi_do Enable_Cursor t;
          t = (if redraw_static_elements (vi t) then vi_do Redraw_Static_Elements t else t)
      in if enable_static_elems_refresh (vi t) then vi_do Enable_Static_Elems_Refresh t else t)"

subsection \<open>The write action and the dispatch of actions\<close>

text \<open>
  \<open>term_action_write\<close> and \<open>term_execute_action\<close> call each other: the filter may emit an
  action for a byte, which \<open>term_action_write\<close> executes at once, and that action may be a
  write again. \<open>write_chars\<close> is the loop of \<open>term_action_write\<close> over the bytes of the span;
  its first argument executes an emitted action. The result \<open>None\<close> stands for a nesting of
  emitted actions deeper than the first argument of \<open>term_execute_action\<close> allows.
\<close>

fun write_chars ::
  "(term_action \<Rightarrow> 'c term_state \<Rightarrow> 'c term_state option) \<Rightarrow> u8 list \<Rightarrow> u8 \<Rightarrow> 'c term_state \<Rightarrow> 'c term_state option"
where
  "write_chars exec [] color t = Some t"
| "write_chars exec (c # cs) color t =
     (case filter_func t of
        None \<Rightarrow> write_chars exec cs color (term_internal_write_char2 c color t)
      | Some f \<Rightarrow>
          (case f c color (filter_ctx t) of
             (interpret, color, a, ctx) \<Rightarrow>
               let t = t\<lparr>filter_ctx := ctx\<rparr>;
                   t = (if interpret then term_internal_write_char2 c color t else t)
               in case a of
                    None \<Rightarrow> write_chars exec cs color t
                  | Some act \<Rightarrow>
                      (case exec act t of
                         None \<Rightarrow> None
                       | Some t \<Rightarrow> write_chars exec cs color t)))"

definition term_action_write ::
  "(term_action \<Rightarrow> 'c term_state \<Rightarrow> 'c term_state option) \<Rightarrow> u8 list \<Rightarrow> u8 \<Rightarrow> 'c term_state \<Rightarrow> 'c term_state option"
where
  "term_action_write exec span color t =
     (let t = ts_scroll_to_bottom t;
          t = vi_do Enable_Cursor t
      in case write_chars exec span color t of
           None \<Rightarrow> None
         | Some t \<Rightarrow> Some (vi_flush_buffers (vi_move_cursor_to_current t)))"

definition dispatch ::
  "(term_action \<Rightarrow> 'c term_state \<Rightarrow> 'c term_state option) \<Rightarrow> term_action \<Rightarrow> 'c term_state \<Rightarrow> 'c term_state option"
where
  "dispatch exec a t =
     (case a of
        A_write span color \<Rightarrow> term_action_write exec span color t
      | A_scroll_up lines \<Rightarrow> Some (term_action_scroll_up lines t)
      | A_scroll_down lines \<Rightarrow> Some (term_action_scroll_down lines t)
      | A_set_col_offset off \<Rightarrow> Some (term_action_set_col_offset off t)
      | A_move_ch_and_cur row col \<Rightarrow> Some (term_action_move_ch_and_cur row col t)
      | A_move_ch_and_cur_rel dx dy \<Rightarrow> Some (term_action_move_ch_and_cur_rel dx dy t)
      | A_reset \<Rightarrow> Some (term_action_reset t)
      | A_erase_in_display mode \<Rightarrow> Some (term_action_erase_in_display mode t)
      | A_erase_in_line mode \<Rightarrow> Some (term_action_erase_in_line mode t)
      | A_non_buf_scroll_up n \<Rightarrow> Some (term_action_non_buf_scroll_up n t)
      | A_non_buf_scroll_down n \<Rightarrow> Some (term_action_non_buf_scroll_down n t)
      | A_pause_video_output \<Rightarrow> Some (term_action_pause_video_output t)
      | A_restart_video_output \<Rightarrow> Some (term_action_restart_video_output t))"

fun term_execute_action :: "nat \<Rightarrow> term_action \<Rightarrow> 'c term_state \<Rightarrow> 'c term_state option" where
  "term_execute_action 0 a t = None"
| "term_execute_action (Suc depth) a t = dispatch (term_execute_action depth) a t"

subsection \<open>What drawing leaves alone\<close>

text \<open>
  Drawing into the buffer and calling the video backend change the buffer and the list of
  backend calls, and nothing else of the terminal state.
\<close>

definition keeps :: "'c term_state \<Rightarrow> 'c term_state \<Rightarrow> bool" where
  "keeps t' t \<longleftrightarrow>
     term_cols t' = term_cols t \<and> term_rows t' = term_rows t \<and>
     current_row t' = current_row t \<and> current_col t' = current_col t \<and>
     term_col_offset t' = term_col_offset t \<and> vi t' = vi t \<and> saved_vi t' = saved_vi t \<and>
     scroll t' = scroll t \<and> max_scroll t' = max_scroll t \<and>
     total_buffer_rows t' = total_buffer_rows t \<and>
     extra_buffer_rows t' = extra_buffer_rows t \<and> term_tabs t' = term_tabs t \<and>
     filter_func t' = filter_func t \<and> filter_ctx t' = filter_ctx t \<and>
     serial_console t' = serial_console t \<and> serial_out t' = serial_out t"

lemma keeps_refl [simp]: "keeps t t"
  by (simp add: keeps_def)

lemma keeps_trans: "keeps t'' t' \<Longrightarrow> keeps t' t \<Longrightarrow> keeps t'' t"
  by (simp add: keeps_def)

lemma keeps_fold:
  assumes "\<And>x t. keeps (f x t) t"
  shows "keeps (fold f xs t) t"
proof (induction xs arbitrary: t)
  case Nil
  show ?case by simp
next
  case (Cons x xs)
  have "keeps (fold f xs (f x t)) (f x t)" by (rule Cons.IH)
  then show ?case using assms [of x t] by (simp add: keeps_trans)
qed

lemma keeps_fields:
  assumes "keeps t' t"
  shows "term_cols t' = term_cols t" "term_rows t' = term_rows t"
    "current_row t' = current_row t" "current_col t' = current_col t"
    "term_col_offset t' = term_col_offset t" "vi t' = vi t" "saved_vi t' = saved_vi t"
    "scroll t' = scroll t" "max_scroll t' = max_scroll t"
    "total_buffer_rows t' = total_buffer_rows t"
    "extra_buffer_rows t' = extra_buffer_rows t" "term_tabs t' = term_tabs t"
    "filter_func t' = filter_func t" "filter_ctx t' = filter_ctx t"
    "serial_console t' = serial_console t" "serial_out t' = serial_out t"
  using assms by (simp_all add: keeps_def)

lemma keeps_vi_do: "keeps (vi_do c t) t"
  by (simp add: keeps_def vi_do_def)

lemma keeps_vi_flush_buffers: "keeps (vi_flush_buffers t) t"
  by (simp add: keeps_def vi_flush_buffers_def vi_do_def)

lemma keeps_vi_move_cursor_to_current: "keeps (vi_move_cursor_to_current t) t"
  by (simp add: keeps_def vi_move_cursor_to_current_def vi_do_def)

lemma keeps_buffer_set_entry: "keeps (buffer_set_entry row col e t) t"
  by (simp add: keeps_def buffer_set_entry_def)

lemma keeps_ts_buf_clear_row: "keeps (ts_buf_clear_row row color t) t"
  by (simp add: keeps_def ts_buf_clear_row_def Let_def)

lemma keeps_buffer_copy_row: "keeps (buffer_copy_row d s t) t"
  by (simp add: keeps_def buffer_copy_row_def Let_def)

lemma keeps_ts_clear_row: "keeps (ts_clear_row row color t) t"
  unfolding ts_clear_row_def
  by (rule keeps_trans [OF keeps_vi_do keeps_ts_buf_clear_row])

lemma keeps_term_redraw: "keeps (term_redraw t) t"
  unfolding term_redraw_def by (rule keeps_fold) (rule keeps_vi_do)

lemma keeps_clear_rows: "keeps (clear_rows lo hi t) t"
  unfolding clear_rows_def by (rule keeps_fold) (rule keeps_ts_clear_row)

lemma keeps_erase_cells: "keeps (erase_cells lo hi t) t"
  unfolding erase_cells_def
  by (rule keeps_fold) (rule keeps_trans [OF keeps_vi_do keeps_buffer_set_entry])

lemmas vi_do_fields [simp] = keeps_fields [OF keeps_vi_do]

lemmas vi_flush_buffers_fields [simp] = keeps_fields [OF keeps_vi_flush_buffers]

lemmas vi_move_cursor_to_current_fields [simp] = keeps_fields [OF keeps_vi_move_cursor_to_current]

lemmas buffer_set_entry_fields [simp] = keeps_fields [OF keeps_buffer_set_entry]

lemmas ts_buf_clear_row_fields [simp] = keeps_fields [OF keeps_ts_buf_clear_row]

lemmas buffer_copy_row_fields [simp] = keeps_fields [OF keeps_buffer_copy_row]

lemmas ts_clear_row_fields [simp] = keeps_fields [OF keeps_ts_clear_row]

lemmas term_redraw_fields [simp] = keeps_fields [OF keeps_term_redraw]

lemmas clear_rows_fields [simp] = keeps_fields [OF keeps_clear_rows]

lemmas erase_cells_fields [simp] = keeps_fields [OF keeps_erase_cells]

subsection \<open>The scroll position\<close>

text \<open>
  \<open>scroll_inv\<close> is the invariant of the scrollback window: \<open>scroll \<le> max_scroll\<close> and
  \<open>max_scroll - scroll \<le> extra_buffer_rows\<close>. \<open>scroll_dist_inv\<close> is its second half alone,
  the difference taken in 32-bit arithmetic. \<open>min_scroll\<close> is the local constant of that
  name in \<open>ts_set_scroll\<close>.
\<close>

definition scroll_inv :: "'c term_state \<Rightarrow> bool" where
  "scroll_inv t \<longleftrightarrow>
     scroll t \<le> max_scroll t \<and> max_scroll t - scroll t \<le> extra_buffer_rows t"

definition scroll_dist_inv :: "'c term_state \<Rightarrow> bool" where
  "scroll_dist_inv t \<longleftrightarrow> max_scroll t - scroll t \<le> extra_buffer_rows t"

definition min_scroll :: "'c term_state \<Rightarrow> u32" where
  "min_scroll t =
     (if max_scroll t > extra_buffer_rows t then max_scroll t - extra_buffer_rows t else 0)"

lemma ts_set_scroll_scroll:
  "scroll (ts_set_scroll r t) = min (max r (min_scroll t)) (max_scroll t)"
  by (simp add: ts_set_scroll_def min_scroll_def Let_def)

lemma ts_set_scroll_others [simp]:
  "max_scroll (ts_set_scroll r t) = max_scroll t"
  "extra_buffer_rows (ts_set_scroll r t) = extra_buffer_rows t"
  "term_cols (ts_set_scroll r t) = term_cols t"
  "term_rows (ts_set_scroll r t) = term_rows t"
  "current_row (ts_set_scroll r t) = current_row t"
  "current_col (ts_set_scroll r t) = current_col t"
  "term_col_offset (ts_set_scroll r t) = term_col_offset t"
  "vi (ts_set_scroll r t) = vi t"
  "saved_vi (ts_set_scroll r t) = saved_vi t"
  "total_buffer_rows (ts_set_scroll r t) = total_buffer_rows t"
  "term_tabs (ts_set_scroll r t) = term_tabs t"
  "filter_func (ts_set_scroll r t) = filter_func t"
  "filter_ctx (ts_set_scroll r t) = filter_ctx t"
  "serial_console (ts_set_scroll r t) = serial_console t"
  "serial_out (ts_set_scroll r t) = serial_out t"
  by (simp_all add: ts_set_scroll_def Let_def)

lemma min_scroll_le: "min_scroll t \<le> max_scroll t"
  by (simp add: min_scroll_def) unat_arith

lemma clamp_bounds:
  fixes r lo hi :: u32
  assumes "lo \<le> hi"
  shows "lo \<le> min (max r lo) hi" "min (max r lo) hi \<le> hi"
  using assms by (auto simp: min_def max_def)

lemma dist_from_min_scroll:
  assumes "min_scroll t \<le> s" "s \<le> max_scroll t"
  shows "max_scroll t - s \<le> extra_buffer_rows t"
  using assms unfolding min_scroll_def by (auto split: if_splits) unat_arith+

lemma ts_set_scroll_inv: "scroll_inv (ts_set_scroll r t)"
  unfolding scroll_inv_def
  by (simp add: ts_set_scroll_scroll clamp_bounds [OF min_scroll_le]
      dist_from_min_scroll [OF clamp_bounds [OF min_scroll_le]])

lemma word_incr_le:
  fixes s m :: u32
  assumes "s \<le> m" "m \<noteq> 0xFFFFFFFF"
  shows "s + 1 \<le> m + 1"
proof -
  have "uint m \<noteq> uint (0xFFFFFFFF :: u32)" using assms(2) by (simp add: word_uint_eq_iff)
  then have m: "uint m < 2 ^ 32 - 1" using uint_lt2p [of m] by simp
  have sm: "uint s \<le> uint m" using assms(1) by (simp add: word_le_def)
  have "uint (m + 1) = uint m + 1" "uint (s + 1) = uint s + 1"
    using m sm uint_ge_0 [of m] uint_ge_0 [of s] by (simp_all add: uint_word_ariths)
  then show ?thesis using sm by (simp add: word_le_def)
qed

lemma word_incr_dist:
  fixes s m :: u32
  shows "(m + 1) - (s + 1) = m - s"
  by simp

lemma scroll_inv_imp_dist: "scroll_inv t \<Longrightarrow> scroll_dist_inv t"
  by (simp add: scroll_inv_def scroll_dist_inv_def)

lemma ts_set_scroll_dist: "scroll_dist_inv (ts_set_scroll r t)"
  by (rule scroll_inv_imp_dist) (rule ts_set_scroll_inv)

lemma incr_row_dist: "scroll_dist_inv t \<Longrightarrow> scroll_dist_inv (term_internal_incr_row color t)"
proof -
  assume d: "scroll_dist_inv t"
  let ?t = "t\<lparr>term_col_offset := 0, max_scroll := max_scroll t + 1\<rparr>"
  have "scroll_dist_inv (ts_set_scroll (max_scroll t + 1) ?t)" by (rule ts_set_scroll_dist)
  then have "scroll_dist_inv (ts_clear_row r color (ts_set_scroll (max_scroll t + 1) ?t))" for r
    by (simp add: scroll_dist_inv_def)
  then show ?thesis
    using d by (simp add: term_internal_incr_row_def Let_def scroll_dist_inv_def)
qed

lemma incr_row_inv:
  assumes i: "scroll_inv t" and nw: "max_scroll t \<noteq> 0xFFFFFFFF \<or> scroll t = max_scroll t"
  shows "scroll_inv (term_internal_incr_row color t)"
proof -
  let ?t = "t\<lparr>term_col_offset := 0, max_scroll := max_scroll t + 1\<rparr>"
  have "scroll_inv (ts_set_scroll (max_scroll t + 1) ?t)" by (rule ts_set_scroll_inv)
  then have a: "scroll_inv (ts_clear_row r color (ts_set_scroll (max_scroll t + 1) ?t))" for r
    by (simp add: scroll_inv_def)
  have b: "scroll t + 1 \<le> max_scroll t + 1"
  proof (cases "scroll t = max_scroll t")
    case True
    then show ?thesis by simp
  next
    case False
    then have "max_scroll t \<noteq> 0xFFFFFFFF" using nw by blast
    moreover have "scroll t \<le> max_scroll t" using i by (simp add: scroll_inv_def)
    ultimately show ?thesis by (intro word_incr_le)
  qed
  show ?thesis
    using i a b by (simp add: term_internal_incr_row_def Let_def scroll_inv_def)
qed

subsection \<open>Invariants of the action engine\<close>

text \<open>
  A property that every byte interpretation and every action other than a write keeps is
  kept by every action, whatever the filter emits and however deep the emitted actions
  nest.
\<close>

definition is_write :: "term_action \<Rightarrow> bool" where
  "is_write a = (case a of A_write _ _ \<Rightarrow> True | _ \<Rightarrow> False)"

lemma write_chars_invariant:
  assumes exec: "\<And>a t t'. exec a t = Some t' \<Longrightarrow> P t \<Longrightarrow> P t'"
    and chr: "\<And>c color t. P t \<Longrightarrow> P (term_internal_write_char2 c color t)"
    and ctx: "\<And>x t. P t \<Longrightarrow> P (t\<lparr>filter_ctx := x\<rparr>)"
  shows "write_chars exec cs color t = Some t' \<Longrightarrow> P t \<Longrightarrow> P t'"
proof (induction cs arbitrary: color t)
  case Nil
  then show ?case by simp
next
  case (Cons c cs)
  show ?case
  proof (cases "filter_func t")
    case None
    with Cons.prems have "write_chars exec cs color (term_internal_write_char2 c color t) = Some t'"
      by simp
    moreover have "P (term_internal_write_char2 c color t)" using Cons.prems(2) by (rule chr)
    ultimately show ?thesis by (rule Cons.IH)
  next
    case (Some f)
    obtain interp color' a x where f: "f c color (filter_ctx t) = (interp, color', a, x)"
      by (cases "f c color (filter_ctx t)")
    define t1 where "t1 = t\<lparr>filter_ctx := x\<rparr>"
    define t2 where "t2 = (if interp then term_internal_write_char2 c color' t1 else t1)"
    have p2: "P t2" using Cons.prems(2) chr ctx by (simp add: t1_def t2_def)
    show ?thesis
    proof (cases a)
      case None
      with Cons.prems(1) Some f have "write_chars exec cs color' t2 = Some t'"
        by (cases interp) (simp_all add: t1_def t2_def Let_def)
      then show ?thesis using p2 by (rule Cons.IH)
    next
      case (Some act)
      with Cons.prems(1) \<open>filter_func t = Some f\<close> f obtain t3 where
        e: "exec act t2 = Some t3" and w: "write_chars exec cs color' t3 = Some t'"
        by (cases interp) (auto simp: t1_def t2_def Let_def split: option.splits)
      have "P t3" using e p2 by (rule exec)
      with w show ?thesis by (rule Cons.IH)
    qed
  qed
qed

lemma term_execute_action_invariant:
  assumes chr: "\<And>c color t. P t \<Longrightarrow> P (term_internal_write_char2 c color t)"
    and ctx: "\<And>x t. P t \<Longrightarrow> P (t\<lparr>filter_ctx := x\<rparr>)"
    and start: "\<And>t. P t \<Longrightarrow> P (vi_do Enable_Cursor (ts_scroll_to_bottom t))"
    and finish: "\<And>t. P t \<Longrightarrow> P (vi_flush_buffers (vi_move_cursor_to_current t))"
    and simple: "\<And>exec a t t'. P t \<Longrightarrow> \<not> is_write a \<Longrightarrow> dispatch exec a t = Some t' \<Longrightarrow> P t'"
  shows "term_execute_action depth a t = Some t' \<Longrightarrow> P t \<Longrightarrow> P t'"
proof (induction depth arbitrary: a t t')
  case 0
  then show ?case by simp
next
  case (Suc depth)
  show ?case
  proof (cases "is_write a")
    case False
    with Suc.prems show ?thesis using simple by simp
  next
    case True
    then obtain span color where a: "a = A_write span color"
      by (cases a) (simp_all add: is_write_def)
    from Suc.prems(1) a obtain t1 where
      w: "write_chars (term_execute_action depth) span color
            (vi_do Enable_Cursor (ts_scroll_to_bottom t)) = Some t1"
      and t': "t' = vi_flush_buffers (vi_move_cursor_to_current t1)"
      by (auto simp: dispatch_def term_action_write_def Let_def split: option.splits)
    have "P t1"
    proof (rule write_chars_invariant [where P = P and exec = "term_execute_action depth"])
      show "P u'" if "term_execute_action depth b u = Some u'" "P u" for b u u'
        using that by (rule Suc.IH)
      show "P (term_internal_write_char2 c col u)" if "P u" for c col u
        using that by (rule chr)
      show "P (u\<lparr>filter_ctx := x\<rparr>)" if "P u" for x u
        using that by (rule ctx)
      show "write_chars (term_execute_action depth) span color
              (vi_do Enable_Cursor (ts_scroll_to_bottom t)) = Some t1"
        by (rule w)
      show "P (vi_do Enable_Cursor (ts_scroll_to_bottom t))"
        using Suc.prems(2) by (rule start)
    qed
    then show ?thesis unfolding t' by (rule finish)
  qed
qed

lemma word_dec_le:
  fixes x :: u16
  assumes "x \<noteq> 0"
  shows "x - 1 \<le> x"
  using assms by uint_arith

lemma backspace_tab_loop_fields:
  "term_cols (backspace_tab_loop i tabs t) = term_cols t \<and>
   term_rows (backspace_tab_loop i tabs t) = term_rows t \<and>
   current_row (backspace_tab_loop i tabs t) = current_row t \<and>
   current_col (backspace_tab_loop i tabs t) \<le> current_col t \<and>
   scroll (backspace_tab_loop i tabs t) = scroll t \<and>
   max_scroll (backspace_tab_loop i tabs t) = max_scroll t \<and>
   extra_buffer_rows (backspace_tab_loop i tabs t) = extra_buffer_rows t \<and>
   term_tabs (backspace_tab_loop i tabs t) = term_tabs t \<and>
   filter_func (backspace_tab_loop i tabs t) = filter_func t"
proof (induction i arbitrary: t)
  case 0
  show ?case by (simp add: backspace_tab_loop.simps [of 0])
next
  case (Suc i)
  have dec: "current_col t - 1 \<le> current_col t" if "current_col t \<noteq> 0"
    using that by (rule word_dec_le)
  show ?case
    using Suc.IH [of "t\<lparr>current_col := current_col t - 1\<rparr>"] dec
    by (auto simp: backspace_tab_loop.simps [of "Suc i"])
qed

lemma write_printable_char_scroll [simp]:
  "scroll (term_internal_write_printable_char c color t) = scroll t"
  "max_scroll (term_internal_write_printable_char c color t) = max_scroll t"
  "extra_buffer_rows (term_internal_write_printable_char c color t) = extra_buffer_rows t"
  "term_cols (term_internal_write_printable_char c color t) = term_cols t"
  "term_rows (term_internal_write_printable_char c color t) = term_rows t"
  "current_row (term_internal_write_printable_char c color t) = current_row t"
  "current_col (term_internal_write_printable_char c color t) = current_col t + 1"
  "term_tabs (term_internal_write_printable_char c color t) = term_tabs t"
  "filter_func (term_internal_write_printable_char c color t) = filter_func t"
  "vi (term_internal_write_printable_char c color t) = vi t"
  by (simp_all add: term_internal_write_printable_char_def Let_def)

lemma write_tab_scroll [simp]:
  "scroll (term_internal_write_tab color t) = scroll t"
  "max_scroll (term_internal_write_tab color t) = max_scroll t"
  "extra_buffer_rows (term_internal_write_tab color t) = extra_buffer_rows t"
  "term_cols (term_internal_write_tab color t) = term_cols t"
  "term_rows (term_internal_write_tab color t) = term_rows t"
  "current_row (term_internal_write_tab color t) = current_row t"
  "filter_func (term_internal_write_tab color t) = filter_func t"
  "term_tabs (term_internal_write_tab color t) = None \<longleftrightarrow> term_tabs t = None"
  by (simp_all add: term_internal_write_tab_def Let_def split: option.splits)

lemma write_backspace_scroll [simp]:
  "scroll (term_internal_write_backspace color t) = scroll t"
  "max_scroll (term_internal_write_backspace color t) = max_scroll t"
  "extra_buffer_rows (term_internal_write_backspace color t) = extra_buffer_rows t"
  "term_cols (term_internal_write_backspace color t) = term_cols t"
  "term_rows (term_internal_write_backspace color t) = term_rows t"
  "current_row (term_internal_write_backspace color t) = current_row t"
  "filter_func (term_internal_write_backspace color t) = filter_func t"
  "term_tabs (term_internal_write_backspace color t) = None \<longleftrightarrow> term_tabs t = None"
  by (simp_all add: term_internal_write_backspace_def Let_def backspace_tab_loop_fields
      split: option.splits)

lemma incr_row_fields [simp]:
  "extra_buffer_rows (term_internal_incr_row color t) = extra_buffer_rows t"
  "term_cols (term_internal_incr_row color t) = term_cols t"
  "term_rows (term_internal_incr_row color t) = term_rows t"
  "current_col (term_internal_incr_row color t) = current_col t"
  "filter_func (term_internal_incr_row color t) = filter_func t"
  "term_tabs (term_internal_incr_row color t) = term_tabs t"
  by (simp_all add: term_internal_incr_row_def Let_def)

lemma write_char2_dist:
  "scroll_dist_inv t \<Longrightarrow> scroll_dist_inv (term_internal_write_char2 c color t)"
proof -
  assume d: "scroll_dist_inv t"
  have p: "scroll_dist_inv (term_internal_incr_row color
             ((term_internal_write_printable_char c color t)\<lparr>current_col := 0\<rparr>))"
    by (rule incr_row_dist) (use d in \<open>simp add: scroll_dist_inv_def\<close>)
  show ?thesis
    unfolding term_internal_write_char2_def Let_def
    using d p incr_row_dist [OF d, of color]
    by (simp add: scroll_dist_inv_def)
qed

lemma write_char2_inv:
  assumes "scroll_inv t" "max_scroll t \<noteq> 0xFFFFFFFF \<or> scroll t = max_scroll t"
  shows "scroll_inv (term_internal_write_char2 c color t)"
proof -
  have p: "scroll_inv (term_internal_incr_row color
             ((term_internal_write_printable_char c color t)\<lparr>current_col := 0\<rparr>))"
    by (rule incr_row_inv) (use assms in \<open>simp_all add: scroll_inv_def\<close>)
  show ?thesis
    unfolding term_internal_write_char2_def Let_def
    using assms(1) p incr_row_inv [OF assms, of color]
    by (simp add: scroll_inv_def)
qed

lemma incr_row_at_bottom:
  "scroll t = max_scroll t \<Longrightarrow>
   scroll (term_internal_incr_row color t) = max_scroll (term_internal_incr_row color t)"
  by (simp add: term_internal_incr_row_def Let_def ts_set_scroll_scroll min_scroll_def)

lemma write_char2_at_bottom:
  "scroll t = max_scroll t \<Longrightarrow>
   scroll (term_internal_write_char2 c color t) = max_scroll (term_internal_write_char2 c color t)"
  unfolding term_internal_write_char2_def Let_def
  by (simp add: incr_row_at_bottom)

lemma write_char2_filter [simp]:
  "filter_func (term_internal_write_char2 c color t) = filter_func t"
  unfolding term_internal_write_char2_def Let_def by simp

lemma keeps_scroll_inv: "keeps t' t \<Longrightarrow> scroll_inv t' = scroll_inv t"
  by (simp add: keeps_def scroll_inv_def)

lemma keeps_scroll_dist_inv: "keeps t' t \<Longrightarrow> scroll_dist_inv t' = scroll_dist_inv t"
  by (simp add: keeps_def scroll_dist_inv_def)

lemmas keeps_helpers =
  keeps_vi_do keeps_vi_flush_buffers keeps_vi_move_cursor_to_current keeps_buffer_set_entry
  keeps_ts_buf_clear_row keeps_buffer_copy_row keeps_ts_clear_row keeps_term_redraw
  keeps_clear_rows keeps_erase_cells

lemmas scroll_inv_helpers [simp] = keeps_helpers [THEN keeps_scroll_inv]

lemmas scroll_dist_inv_helpers [simp] = keeps_helpers [THEN keeps_scroll_dist_inv]

lemma keeps_non_buf_scroll_up: "keeps (term_action_non_buf_scroll_up n t) t"
  unfolding term_action_non_buf_scroll_up_def Let_def
  by (intro keeps_trans [OF keeps_term_redraw] keeps_trans [OF keeps_fold] keeps_fold
      keeps_buffer_copy_row keeps_ts_buf_clear_row)

lemma keeps_non_buf_scroll_down: "keeps (term_action_non_buf_scroll_down n t) t"
  unfolding term_action_non_buf_scroll_down_def Let_def
  by (intro keeps_trans [OF keeps_term_redraw] keeps_trans [OF keeps_fold] keeps_fold
      keeps_buffer_copy_row keeps_ts_buf_clear_row)

lemma keeps_erase_in_line: "keeps (term_action_erase_in_line mode t) t"
  unfolding term_action_erase_in_line_def
  by (auto intro!: keeps_trans [OF keeps_vi_flush_buffers] keeps_erase_cells keeps_ts_clear_row)

lemma ts_scroll_up_inv: "scroll_inv (ts_scroll_up lines t)"
  by (simp add: ts_scroll_up_def ts_set_scroll_inv)

lemma ts_scroll_down_inv: "scroll_inv (ts_scroll_down lines t)"
  by (simp add: ts_scroll_down_def ts_set_scroll_inv)

lemma ts_scroll_to_bottom_inv: "scroll_inv t \<Longrightarrow> scroll_inv (ts_scroll_to_bottom t)"
  by (simp add: ts_scroll_to_bottom_def ts_set_scroll_inv)

lemma ts_scroll_to_bottom_at_bottom:
  "scroll (ts_scroll_to_bottom t) = max_scroll (ts_scroll_to_bottom t)"
  by (simp add: ts_scroll_to_bottom_def ts_set_scroll_scroll min_scroll_def)

lemma term_action_scroll_up_inv: "scroll_inv (term_action_scroll_up lines t)"
  by (simp add: term_action_scroll_up_def Let_def ts_scroll_up_inv)

lemma term_action_scroll_down_inv: "scroll_inv (term_action_scroll_down lines t)"
  by (simp add: term_action_scroll_down_def Let_def ts_scroll_down_inv)

lemma term_action_move_fields [simp]:
  "scroll (term_action_move_ch_and_cur row col t) = scroll t"
  "max_scroll (term_action_move_ch_and_cur row col t) = max_scroll t"
  "extra_buffer_rows (term_action_move_ch_and_cur row col t) = extra_buffer_rows t"
  "term_cols (term_action_move_ch_and_cur row col t) = term_cols t"
  "term_rows (term_action_move_ch_and_cur row col t) = term_rows t"
  "term_tabs (term_action_move_ch_and_cur row col t) = term_tabs t"
  "filter_func (term_action_move_ch_and_cur row col t) = filter_func t"
  "current_row (term_action_move_ch_and_cur row col t) =
     word_of_int (min (max row 0) (uint (term_rows t) - 1))"
  "current_col (term_action_move_ch_and_cur row col t) =
     word_of_int (min (max col 0) (uint (term_cols t) - 1))"
  by (simp_all add: term_action_move_ch_and_cur_def Let_def)

lemma term_action_move_rel_fields [simp]:
  "scroll (term_action_move_ch_and_cur_rel dx dy t) = scroll t"
  "max_scroll (term_action_move_ch_and_cur_rel dx dy t) = max_scroll t"
  "extra_buffer_rows (term_action_move_ch_and_cur_rel dx dy t) = extra_buffer_rows t"
  "term_cols (term_action_move_ch_and_cur_rel dx dy t) = term_cols t"
  "term_rows (term_action_move_ch_and_cur_rel dx dy t) = term_rows t"
  "term_tabs (term_action_move_ch_and_cur_rel dx dy t) = term_tabs t"
  "filter_func (term_action_move_ch_and_cur_rel dx dy t) = filter_func t"
  "current_row (term_action_move_ch_and_cur_rel dx dy t) =
     word_of_int (min (max (uint (current_row t) + sint dx) 0) (uint (term_rows t) - 1))"
  "current_col (term_action_move_ch_and_cur_rel dx dy t) =
     word_of_int (min (max (uint (current_col t) + sint dy) 0) (uint (term_cols t) - 1))"
  by (simp_all add: term_action_move_ch_and_cur_rel_def Let_def)

lemma term_action_reset_fields [simp]:
  "scroll (term_action_reset t) = 0"
  "max_scroll (term_action_reset t) = 0"
  "extra_buffer_rows (term_action_reset t) = extra_buffer_rows t"
  "term_cols (term_action_reset t) = term_cols t"
  "term_rows (term_action_reset t) = term_rows t"
  "filter_func (term_action_reset t) = filter_func t"
  "term_tabs (term_action_reset t) = None \<longleftrightarrow> term_tabs t = None"
  "current_row (term_action_reset t) = word_of_int (min 0 (uint (term_rows t) - 1))"
  "current_col (term_action_reset t) = word_of_int (min 0 (uint (term_cols t) - 1))"
  by (simp_all add: term_action_reset_def Let_def split: option.splits)

lemma term_action_reset_inv: "scroll_inv (term_action_reset t)"
  by (simp add: scroll_inv_def)

lemma term_action_erase_in_display_inv:
  "scroll_inv t \<Longrightarrow> scroll_inv (term_action_erase_in_display mode t)"
  by (simp add: term_action_erase_in_display_def Let_def term_action_reset_inv)

lemma term_action_erase_in_display_dist:
  "scroll_dist_inv t \<Longrightarrow> scroll_dist_inv (term_action_erase_in_display mode t)"
  by (simp add: term_action_erase_in_display_def Let_def scroll_inv_imp_dist [OF term_action_reset_inv])

lemma pause_restart_fields [simp]:
  "scroll (term_action_pause_video_output t) = scroll t"
  "max_scroll (term_action_pause_video_output t) = max_scroll t"
  "extra_buffer_rows (term_action_pause_video_output t) = extra_buffer_rows t"
  "scroll (term_action_restart_video_output t) = scroll t"
  "max_scroll (term_action_restart_video_output t) = max_scroll t"
  "extra_buffer_rows (term_action_restart_video_output t) = extra_buffer_rows t"
  "filter_func (term_action_pause_video_output t) = filter_func t"
  "filter_func (term_action_restart_video_output t) = filter_func t"
  "term_cols (term_action_pause_video_output t) = term_cols t"
  "term_rows (term_action_pause_video_output t) = term_rows t"
  "current_row (term_action_pause_video_output t) = current_row t"
  "current_col (term_action_pause_video_output t) = current_col t"
  "term_tabs (term_action_pause_video_output t) = term_tabs t"
  "term_cols (term_action_restart_video_output t) = term_cols t"
  "term_rows (term_action_restart_video_output t) = term_rows t"
  "current_row (term_action_restart_video_output t) = current_row t"
  "current_col (term_action_restart_video_output t) = current_col t"
  "term_tabs (term_action_restart_video_output t) = term_tabs t"
  by (simp_all add: term_action_pause_video_output_def term_action_restart_video_output_def
      Let_def)

lemma simple_action_scroll_inv:
  assumes "\<not> is_write a" "dispatch exec a t = Some t'" "scroll_inv t"
  shows "scroll_inv t'"
proof (cases a)
  case (A_write span color)
  then show ?thesis using assms(1) by (simp add: is_write_def)
next
  case (A_scroll_up lines)
  then show ?thesis using assms(2) by (auto simp: dispatch_def term_action_scroll_up_inv)
next
  case (A_scroll_down lines)
  then show ?thesis using assms(2) by (auto simp: dispatch_def term_action_scroll_down_inv)
next
  case (A_set_col_offset off)
  then show ?thesis using assms(2,3)
    by (auto simp: dispatch_def term_action_set_col_offset_def scroll_inv_def)
next
  case (A_move_ch_and_cur row col)
  then show ?thesis using assms(2,3) by (auto simp: dispatch_def scroll_inv_def)
next
  case (A_move_ch_and_cur_rel dx dy)
  then show ?thesis using assms(2,3) by (auto simp: dispatch_def scroll_inv_def)
next
  case A_reset
  then show ?thesis using assms(2) by (auto simp: dispatch_def term_action_reset_inv)
next
  case (A_erase_in_display mode)
  then show ?thesis using assms(2,3) by (auto simp: dispatch_def term_action_erase_in_display_inv)
next
  case (A_erase_in_line mode)
  then show ?thesis using assms(2,3)
    by (auto simp: dispatch_def keeps_scroll_inv [OF keeps_erase_in_line])
next
  case (A_non_buf_scroll_up n)
  then show ?thesis using assms(2,3)
    by (auto simp: dispatch_def keeps_scroll_inv [OF keeps_non_buf_scroll_up])
next
  case (A_non_buf_scroll_down n)
  then show ?thesis using assms(2,3)
    by (auto simp: dispatch_def keeps_scroll_inv [OF keeps_non_buf_scroll_down])
next
  case A_pause_video_output
  then show ?thesis using assms(2,3) by (auto simp: dispatch_def scroll_inv_def)
next
  case A_restart_video_output
  then show ?thesis using assms(2,3) by (auto simp: dispatch_def scroll_inv_def)
qed

lemma simple_action_scroll_dist_inv:
  assumes "\<not> is_write a" "dispatch exec a t = Some t'" "scroll_dist_inv t"
  shows "scroll_dist_inv t'"
proof (cases a)
  case (A_write span color)
  then show ?thesis using assms(1) by (simp add: is_write_def)
next
  case (A_scroll_up lines)
  then show ?thesis using assms(2)
    by (auto simp: dispatch_def scroll_inv_imp_dist [OF term_action_scroll_up_inv])
next
  case (A_scroll_down lines)
  then show ?thesis using assms(2)
    by (auto simp: dispatch_def scroll_inv_imp_dist [OF term_action_scroll_down_inv])
next
  case (A_set_col_offset off)
  then show ?thesis using assms(2,3)
    by (auto simp: dispatch_def term_action_set_col_offset_def scroll_dist_inv_def)
next
  case (A_move_ch_and_cur row col)
  then show ?thesis using assms(2,3) by (auto simp: dispatch_def scroll_dist_inv_def)
next
  case (A_move_ch_and_cur_rel dx dy)
  then show ?thesis using assms(2,3) by (auto simp: dispatch_def scroll_dist_inv_def)
next
  case A_reset
  then show ?thesis using assms(2)
    by (auto simp: dispatch_def scroll_inv_imp_dist [OF term_action_reset_inv])
next
  case (A_erase_in_display mode)
  then show ?thesis using assms(2,3) by (auto simp: dispatch_def term_action_erase_in_display_dist)
next
  case (A_erase_in_line mode)
  then show ?thesis using assms(2,3)
    by (auto simp: dispatch_def keeps_scroll_dist_inv [OF keeps_erase_in_line])
next
  case (A_non_buf_scroll_up n)
  then show ?thesis using assms(2,3)
    by (auto simp: dispatch_def keeps_scroll_dist_inv [OF keeps_non_buf_scroll_up])
next
  case (A_non_buf_scroll_down n)
  then show ?thesis using assms(2,3)
    by (auto simp: dispatch_def keeps_scroll_dist_inv [OF keeps_non_buf_scroll_down])
next
  case A_pause_video_output
  then show ?thesis using assms(2,3) by (auto simp: dispatch_def scroll_dist_inv_def)
next
  case A_restart_video_output
  then show ?thesis using assms(2,3) by (auto simp: dispatch_def scroll_dist_inv_def)
qed

lemma write_chars_no_filter:
  "filter_func t = None \<Longrightarrow>
   write_chars exec cs color t = Some (fold (\<lambda>c. term_internal_write_char2 c color) cs t)"
  by (induction cs arbitrary: t) simp_all

lemma fold_write_char2_at_bottom:
  "scroll t = max_scroll t \<Longrightarrow>
   scroll (fold (\<lambda>c. term_internal_write_char2 c color) cs t) =
   max_scroll (fold (\<lambda>c. term_internal_write_char2 c color) cs t)"
  by (induction cs arbitrary: t) (simp_all add: write_char2_at_bottom)

lemma fold_write_char2_extra [simp]:
  "filter_func (fold (\<lambda>c. term_internal_write_char2 c color) cs t) = filter_func t"
  by (induction cs arbitrary: t) simp_all

lemma ts_scroll_to_bottom_filter [simp]:
  "filter_func (ts_scroll_to_bottom t) = filter_func t"
  by (simp add: ts_scroll_to_bottom_def)

lemma execute_action_dist:
  "term_execute_action depth a t = Some t' \<Longrightarrow> scroll_dist_inv t \<Longrightarrow> scroll_dist_inv t'"
proof (rule term_execute_action_invariant [where P = scroll_dist_inv])
  show "scroll_dist_inv (term_internal_write_char2 c color u)" if "scroll_dist_inv u" for c color u
    using that by (rule write_char2_dist)
  show "scroll_dist_inv (u\<lparr>filter_ctx := x\<rparr>)" if "scroll_dist_inv u" for x u
    using that by (simp add: scroll_dist_inv_def)
  show "scroll_dist_inv (vi_do Enable_Cursor (ts_scroll_to_bottom u))" if "scroll_dist_inv u" for u
    using that by (simp add: ts_scroll_to_bottom_def ts_set_scroll_dist)
  show "scroll_dist_inv (vi_flush_buffers (vi_move_cursor_to_current u))" if "scroll_dist_inv u" for u
    using that by simp
  show "scroll_dist_inv u'"
    if "scroll_dist_inv u" "\<not> is_write b" "dispatch exec b u = Some u'" for exec b u u'
    using that(2,3,1) by (rule simple_action_scroll_dist_inv)
qed

lemma execute_action_no_filter:
  assumes "filter_func t = None"
  shows "\<exists>t'. term_execute_action (Suc depth) a t = Some t' \<and> filter_func t' = None \<and>
              (scroll_inv t \<longrightarrow> scroll_inv t')"
proof (cases "is_write a")
  case True
  then obtain span color where a: "a = A_write span color"
    by (cases a) (simp_all add: is_write_def)
  let ?t0 = "vi_do Enable_Cursor (ts_scroll_to_bottom t)"
  let ?t1 = "fold (\<lambda>c. term_internal_write_char2 c color) span ?t0"
  let ?t2 = "vi_flush_buffers (vi_move_cursor_to_current ?t1)"
  have f0: "filter_func ?t0 = None" using assms by simp
  have r: "term_execute_action (Suc depth) a t = Some ?t2"
    by (simp add: a dispatch_def term_action_write_def Let_def write_chars_no_filter [OF f0])
  have "scroll ?t0 = max_scroll ?t0" by (simp add: ts_scroll_to_bottom_at_bottom)
  then have "scroll ?t1 = max_scroll ?t1" by (rule fold_write_char2_at_bottom)
  then have "scroll_inv ?t2" by (simp add: scroll_inv_def)
  moreover have "filter_func ?t2 = None" using assms by simp
  ultimately show ?thesis using r by blast
next
  case False
  then obtain t' where d: "dispatch (term_execute_action depth) a t = Some t'"
    by (cases a) (simp_all add: dispatch_def is_write_def)
  have "filter_func t' = None"
    using d False assms
    by (cases a)
       (auto simp: dispatch_def is_write_def term_action_scroll_up_def term_action_scroll_down_def
          Let_def ts_scroll_up_def ts_scroll_down_def term_action_set_col_offset_def
          term_action_erase_in_display_def keeps_fields [OF keeps_erase_in_line]
          keeps_fields [OF keeps_non_buf_scroll_up] keeps_fields [OF keeps_non_buf_scroll_down])
  moreover have "scroll_inv t \<longrightarrow> scroll_inv t'"
    using simple_action_scroll_inv [OF False d] by blast
  ultimately show ?thesis using d by simp
qed

subsection \<open>The cursor\<close>

lemma uint_ucast_16_32: "uint (ucast (w :: u16) :: u32) = uint w"
  by (simp add: uint_up_ucast is_up)

lemma sint_small_32:
  fixes w :: u32
  assumes "uint w < 2 ^ 31"
  shows "sint w = uint w"
proof -
  have "signed_take_bit 31 (uint w) = uint w"
    using assms by (intro signed_take_bit_int_eq_self) (simp_all add: order_trans [of _ 0])
  then show ?thesis by (simp add: sint_uint)
qed

lemma uint_word_of_int_16:
  assumes "0 \<le> k" "k < 65536"
  shows "uint (word_of_int k :: u16) = k"
  using assms by (simp add: uint_word_of_int)

lemma uint_inc_16:
  fixes x :: u16
  assumes "uint x < 65535"
  shows "uint (x + 1) = uint x + 1"
  using assms by (simp add: uint_word_ariths)

text \<open>
  \<open>cursor_in_grid\<close>: the cursor is on a cell of the visible grid. \<open>tab_stops_fit\<close>: the
  terminal has no tab bitmap or is at least two columns wide. \<open>tab_target\<close> is the value
  that \<open>term_internal_write_tab\<close> computes for its local variable \<open>tab_col\<close>.
\<close>

definition cursor_in_grid :: "'c term_state \<Rightarrow> bool" where
  "cursor_in_grid t \<longleftrightarrow> current_row t < term_rows t \<and> current_col t < term_cols t"

definition tab_stops_fit :: "'c term_state \<Rightarrow> bool" where
  "tab_stops_fit t \<longleftrightarrow> term_tabs t = None \<or> 2 \<le> term_cols t"

definition tab_target :: "'c term_state \<Rightarrow> int" where
  "tab_target t =
     sint (min (round_up_at (word_of_int (uint (current_col t) + 1)) (word_of_int term_tab_size))
               (ucast (term_cols t) - 2 :: u32))"

lemma tab_target_bounds:
  assumes "2 \<le> term_cols t"
  shows "0 \<le> tab_target t" "tab_target t \<le> uint (term_cols t) - 2"
proof -
  let ?lim = "ucast (term_cols t) - 2 :: u32"
  let ?m = "min (round_up_at (word_of_int (uint (current_col t) + 1)) (word_of_int term_tab_size)) ?lim"
  have c: "2 \<le> uint (term_cols t)" using assms by (simp add: word_le_def)
  have c2: "uint (term_cols t) < 65536" using uint_lt2p [of "term_cols t"] by simp
  have "uint ?lim = (uint (term_cols t) - 2) mod 2 ^ 32"
    by (simp add: uint_word_ariths uint_ucast_16_32)
  then have lim: "uint ?lim = uint (term_cols t) - 2" using c c2 by simp
  have "?m \<le> ?lim" by simp
  then have m: "uint ?m \<le> uint (term_cols t) - 2" using lim by (simp add: word_le_def)
  then have "uint ?m < 2 ^ 31" using c2 by simp
  then have "sint ?m = uint ?m" by (rule sint_small_32)
  then show "0 \<le> tab_target t" "tab_target t \<le> uint (term_cols t) - 2"
    using m by (simp_all add: tab_target_def)
qed

lemma write_tab_with_tabs:
  assumes "term_tabs t = Some tabs"
  shows "term_internal_write_tab color t =
           t\<lparr>term_tabs := Some (tabs(uint (current_row t) * uint (term_cols t) + tab_target t := True)),
             current_col := word_of_int (tab_target t + 1)\<rparr>"
  using assms by (simp add: term_internal_write_tab_def tab_target_def Let_def)

lemma write_tab_col:
  assumes "term_tabs t = Some tabs" "2 \<le> term_cols t"
  shows "uint (current_col (term_internal_write_tab color t)) = tab_target t + 1"
    and "current_col (term_internal_write_tab color t) < term_cols t"
proof -
  have c2: "uint (term_cols t) < 65536" using uint_lt2p [of "term_cols t"] by simp
  have b: "0 \<le> tab_target t" "tab_target t \<le> uint (term_cols t) - 2"
    using assms(2) by (rule tab_target_bounds)+
  have "uint (word_of_int (tab_target t + 1) :: u16) = tab_target t + 1"
    using b c2 by (intro uint_word_of_int_16) simp_all
  then show "uint (current_col (term_internal_write_tab color t)) = tab_target t + 1"
    by (simp add: write_tab_with_tabs [OF assms(1)])
  then show "current_col (term_internal_write_tab color t) < term_cols t"
    using b by (simp add: word_less_def)
qed

lemma write_tab_without_tabs:
  assumes "term_tabs t = None" "current_col t < term_cols t"
  shows "current_col (term_internal_write_tab color t) < term_cols t"
proof -
  have c: "uint (current_col t) < uint (term_cols t)" using assms(2) by (simp add: word_less_def)
  have c2: "uint (term_cols t) < 65536" using uint_lt2p [of "term_cols t"] by simp
  have "uint (current_col t + 1) = uint (current_col t) + 1"
    using c c2 by (intro uint_inc_16) simp
  then show ?thesis
    using assms c by (auto simp: term_internal_write_tab_def Let_def word_less_def)
qed

lemma write_backspace_col:
  "current_col (term_internal_write_backspace color t) \<le> current_col t"
proof -
  have loop: "current_col (backspace_tab_loop i tabs u) \<le> current_col u" for i tabs and u :: "'a term_state"
    using backspace_tab_loop_fields [of i tabs u] by simp
  have dec: "current_col t - 1 \<le> current_col t" if "current_col t \<noteq> 0"
    using that by (rule word_dec_le)
  show ?thesis
    using dec loop [of _ _ "t\<lparr>current_col := current_col t - 1, term_tabs := _\<rparr>"]
    by (auto simp: term_internal_write_backspace_def Let_def split: option.splits
        intro: order_trans)
qed

lemma incr_row_row:
  assumes "current_row t < term_rows t"
  shows "current_row (term_internal_incr_row color t) < term_rows t"
proof -
  have r2: "uint (term_rows t) < 65536" using uint_lt2p [of "term_rows t"] by simp
  have "uint (current_row t + 1) = uint (current_row t) + 1"
    if "uint (current_row t) < uint (term_rows t) - 1"
    using that r2 by (intro uint_inc_16) simp
  then show ?thesis
    using assms by (auto simp: term_internal_incr_row_def Let_def word_less_def)
qed

lemma incr_row_row_cases:
  "current_row (term_internal_incr_row color t) =
     (if uint (current_row t) < uint (term_rows t) - 1 then current_row t + 1 else current_row t)"
  by (simp add: term_internal_incr_row_def Let_def)

lemma write_char2_cursor:
  assumes "cursor_in_grid t" "tab_stops_fit t"
  shows "cursor_in_grid (term_internal_write_char2 c color t) \<and>
         tab_stops_fit (term_internal_write_char2 c color t)"
proof -
  have r: "current_row t < term_rows t" and cc: "current_col t < term_cols t"
    using assms(1) by (simp_all add: cursor_in_grid_def)
  have c: "uint (current_col t) < uint (term_cols t)" using cc by (simp add: word_less_def)
  have c2: "uint (term_cols t) < 65536" using uint_lt2p [of "term_cols t"] by simp
  have pos: "0 < term_cols t" using cc by (auto simp: word_less_def intro: le_less_trans)
  have inc: "uint (current_col t + 1) = uint (current_col t) + 1"
    using c c2 by (intro uint_inc_16) simp
  have next_col: "current_col t + 1 < term_cols t" if "current_col t + 1 \<noteq> term_cols t"
    using that inc c by (simp add: word_less_def word_uint_eq_iff)
  have tab: "current_col (term_internal_write_tab color t) < term_cols t"
  proof (cases "term_tabs t")
    case None
    then show ?thesis using cc by (rule write_tab_without_tabs)
  next
    case (Some tabs)
    moreover have "2 \<le> term_cols t" using assms(2) Some by (simp add: tab_stops_fit_def)
    ultimately show ?thesis by (rule write_tab_col)
  qed
  have bs: "current_col (term_internal_write_backspace color t) < term_cols t"
    using write_backspace_col [of color t] cc by (rule le_less_trans)
  have row: "current_row (term_internal_incr_row color u) < term_rows t"
    if "current_row u = current_row t" "term_rows u = term_rows t" for u :: "'a term_state"
    using incr_row_row [of u color] r that by simp
  show ?thesis
    unfolding term_internal_write_char2_def Let_def cursor_in_grid_def tab_stops_fit_def
    using r cc pos tab bs next_col assms(2) row [of t]
      row [of "(term_internal_write_printable_char c color t)\<lparr>current_col := 0\<rparr>"]
    by (simp add: tab_stops_fit_def)
qed

lemma clamp_in_grid:
  fixes n :: u16
  assumes "0 < n"
  shows "(word_of_int (min (max v 0) (uint n - 1)) :: u16) < n"
proof -
  have n: "1 \<le> uint n" "uint n < 65536"
    using assms uint_lt2p [of n] by (simp_all add: word_less_def)
  have "uint (word_of_int (min (max v 0) (uint n - 1)) :: u16) = min (max v 0) (uint n - 1)"
    using n by (intro uint_word_of_int_16) simp_all
  then show ?thesis using n by (simp add: word_less_def)
qed

lemma keeps_cursor: "keeps t' t \<Longrightarrow> cursor_in_grid t' = cursor_in_grid t"
  by (simp add: keeps_def cursor_in_grid_def)

lemma keeps_tab_stops_fit: "keeps t' t \<Longrightarrow> tab_stops_fit t' = tab_stops_fit t"
  by (simp add: keeps_def tab_stops_fit_def)

lemmas cursor_helpers [simp] = keeps_helpers [THEN keeps_cursor]

lemmas tab_stops_fit_helpers [simp] = keeps_helpers [THEN keeps_tab_stops_fit]

lemma cursor_pos_dims:
  assumes "cursor_in_grid t"
  shows "0 < term_rows t" "0 < term_cols t"
  using assms by (auto simp: cursor_in_grid_def word_less_def intro: le_less_trans)

lemma clamp_in_grid_0:
  fixes n :: u16
  assumes "0 < n"
  shows "(word_of_int (min 0 (uint n - 1)) :: u16) < n"
  using clamp_in_grid [OF assms, of 0] by simp

lemma scroll_actions_fields [simp]:
  "term_cols (term_action_scroll_up lines t) = term_cols t"
  "term_rows (term_action_scroll_up lines t) = term_rows t"
  "current_row (term_action_scroll_up lines t) = current_row t"
  "current_col (term_action_scroll_up lines t) = current_col t"
  "term_tabs (term_action_scroll_up lines t) = term_tabs t"
  "term_cols (term_action_scroll_down lines t) = term_cols t"
  "term_rows (term_action_scroll_down lines t) = term_rows t"
  "current_row (term_action_scroll_down lines t) = current_row t"
  "current_col (term_action_scroll_down lines t) = current_col t"
  "term_tabs (term_action_scroll_down lines t) = term_tabs t"
  by (simp_all add: term_action_scroll_up_def term_action_scroll_down_def ts_scroll_up_def
      ts_scroll_down_def Let_def)

lemma move_cursor_in_grid:
  assumes "cursor_in_grid t"
  shows "cursor_in_grid (term_action_move_ch_and_cur row col t)"
    and "cursor_in_grid (term_action_move_ch_and_cur_rel dx dy t)"
    and "cursor_in_grid (term_action_reset t)"
  using cursor_pos_dims [OF assms]
  by (simp_all add: cursor_in_grid_def clamp_in_grid clamp_in_grid_0)

lemma reset_tab_stops_fit: "tab_stops_fit (term_action_reset t) = tab_stops_fit t"
  by (simp add: tab_stops_fit_def)

lemma simple_action_cursor:
  assumes "\<not> is_write a" "dispatch exec a t = Some t'" "cursor_in_grid t \<and> tab_stops_fit t"
  shows "cursor_in_grid t' \<and> tab_stops_fit t'"
proof (cases a)
  case (A_write span color)
  then show ?thesis using assms(1) by (simp add: is_write_def)
next
  case (A_scroll_up lines)
  then show ?thesis using assms(2,3)
    by (auto simp: dispatch_def cursor_in_grid_def tab_stops_fit_def)
next
  case (A_scroll_down lines)
  then show ?thesis using assms(2,3)
    by (auto simp: dispatch_def cursor_in_grid_def tab_stops_fit_def)
next
  case (A_set_col_offset off)
  then show ?thesis using assms(2,3)
    by (auto simp: dispatch_def term_action_set_col_offset_def cursor_in_grid_def
        tab_stops_fit_def)
next
  case (A_move_ch_and_cur row col)
  then show ?thesis using assms(2,3) move_cursor_in_grid(1) [of t row col]
    by (auto simp: dispatch_def tab_stops_fit_def)
next
  case (A_move_ch_and_cur_rel dx dy)
  then show ?thesis using assms(2,3) move_cursor_in_grid(2) [of t dx dy]
    by (auto simp: dispatch_def tab_stops_fit_def)
next
  case A_reset
  then show ?thesis using assms(2,3) move_cursor_in_grid(3) [of t]
    by (auto simp: dispatch_def reset_tab_stops_fit)
next
  case (A_erase_in_display mode)
  then show ?thesis using assms(2,3) move_cursor_in_grid(3) [of t]
    by (auto simp: dispatch_def term_action_erase_in_display_def Let_def reset_tab_stops_fit)
next
  case (A_erase_in_line mode)
  then show ?thesis using assms(2,3)
    by (auto simp: dispatch_def keeps_cursor [OF keeps_erase_in_line]
        keeps_tab_stops_fit [OF keeps_erase_in_line])
next
  case (A_non_buf_scroll_up n)
  then show ?thesis using assms(2,3)
    by (auto simp: dispatch_def keeps_cursor [OF keeps_non_buf_scroll_up]
        keeps_tab_stops_fit [OF keeps_non_buf_scroll_up])
next
  case (A_non_buf_scroll_down n)
  then show ?thesis using assms(2,3)
    by (auto simp: dispatch_def keeps_cursor [OF keeps_non_buf_scroll_down]
        keeps_tab_stops_fit [OF keeps_non_buf_scroll_down])
next
  case A_pause_video_output
  then show ?thesis using assms(2,3)
    by (auto simp: dispatch_def cursor_in_grid_def tab_stops_fit_def)
next
  case A_restart_video_output
  then show ?thesis using assms(2,3)
    by (auto simp: dispatch_def cursor_in_grid_def tab_stops_fit_def)
qed

lemma execute_action_cursor:
  "term_execute_action depth a t = Some t' \<Longrightarrow> cursor_in_grid t \<and> tab_stops_fit t \<Longrightarrow>
   cursor_in_grid t' \<and> tab_stops_fit t'"
proof (rule term_execute_action_invariant [where P = "\<lambda>t. cursor_in_grid t \<and> tab_stops_fit t"])
  show "cursor_in_grid (term_internal_write_char2 c color u) \<and>
        tab_stops_fit (term_internal_write_char2 c color u)"
    if "cursor_in_grid u \<and> tab_stops_fit u" for c color u
    using that by (simp add: write_char2_cursor)
  show "cursor_in_grid (u\<lparr>filter_ctx := x\<rparr>) \<and> tab_stops_fit (u\<lparr>filter_ctx := x\<rparr>)"
    if "cursor_in_grid u \<and> tab_stops_fit u" for x u
    using that by (simp add: cursor_in_grid_def tab_stops_fit_def)
  show "cursor_in_grid (vi_do Enable_Cursor (ts_scroll_to_bottom u)) \<and>
        tab_stops_fit (vi_do Enable_Cursor (ts_scroll_to_bottom u))"
    if "cursor_in_grid u \<and> tab_stops_fit u" for u
    using that by (simp add: ts_scroll_to_bottom_def cursor_in_grid_def tab_stops_fit_def)
  show "cursor_in_grid (vi_flush_buffers (vi_move_cursor_to_current u)) \<and>
        tab_stops_fit (vi_flush_buffers (vi_move_cursor_to_current u))"
    if "cursor_in_grid u \<and> tab_stops_fit u" for u
    using that by simp
  show "cursor_in_grid u' \<and> tab_stops_fit u'"
    if "cursor_in_grid u \<and> tab_stops_fit u" "\<not> is_write b" "dispatch exec b u = Some u'"
    for exec b u u'
    using that(2,3,1) by (rule simple_action_cursor)
qed

text \<open>
  \<open>default_case\<close>: the byte reaches the \<open>default\<close> branch of the \<open>switch\<close> in
  \<open>term_internal_write_char2\<close>, which prints it.
\<close>

definition default_case :: "u8 \<Rightarrow> bool" where
  "default_case c \<longleftrightarrow>
     c \<noteq> 0x1B \<and> c \<noteq> 0x07 \<and> c \<noteq> 0x0B \<and> c \<noteq> 0x0A \<and> c \<noteq> 0x0D \<and> c \<noteq> 0x09 \<and>
     c \<noteq> TERM_ERASE_C \<and> c \<noteq> TERM_WERASE_C \<and> c \<noteq> TERM_KILL_C"

lemma write_char2_default:
  assumes "\<not> serial_console t" "default_case c"
  shows "term_internal_write_char2 c color t =
           (if current_col t + 1 = term_cols t
            then term_internal_incr_row color
                   ((term_internal_write_printable_char c color t)\<lparr>current_col := 0\<rparr>)
            else term_internal_write_printable_char c color t)"
  using assms by (simp add: term_internal_write_char2_def default_case_def Let_def)

lemma write_char2_tab:
  assumes "\<not> serial_console t"
  shows "term_internal_write_char2 0x09 color t = term_internal_write_tab color t"
  using assms by (simp add: term_internal_write_char2_def)

lemma default_case_letters: "default_case 0x61" "default_case 0x62"
  by (simp_all add: default_case_def TERM_ERASE_C_def TERM_WERASE_C_def TERM_KILL_C_def)

lemma tab_target_from_col_1:
  assumes "current_col t = 1" "10 < term_cols t"
  shows "tab_target t = 8"
proof -
  have c: "10 < uint (term_cols t)" "uint (term_cols t) < 65536"
    using assms(2) uint_lt2p [of "term_cols t"] by (simp_all add: word_less_def)
  have "uint (ucast (term_cols t) - 2 :: u32) = (uint (term_cols t) - 2) mod 2 ^ 32"
    by (simp add: uint_word_ariths uint_ucast_16_32)
  then have lim: "uint (ucast (term_cols t) - 2 :: u32) = uint (term_cols t) - 2"
    using c by simp
  have r: "round_up_at (word_of_int (uint (current_col t) + 1)) (word_of_int term_tab_size) = 8"
    by (simp add: assms(1) round_up_at_def term_tab_size_def)
  have "(8 :: u32) \<le> ucast (term_cols t) - 2"
    using lim c by (simp add: word_le_def)
  then have m: "min (8 :: u32) (ucast (term_cols t) - 2) = 8" by (simp add: min_def)
  show ?thesis unfolding tab_target_def r m by simp
qed

lemma vi_buffer [simp]:
  "buffer (vi_do c t) = buffer t"
  "buffer (vi_flush_buffers t) = buffer t"
  "buffer (vi_move_cursor_to_current t) = buffer t"
  by (simp_all add: vi_do_def vi_flush_buffers_def vi_move_cursor_to_current_def)

lemma buffer_index_eq:
  "scroll t' = scroll t \<Longrightarrow> total_buffer_rows t' = total_buffer_rows t \<Longrightarrow>
   term_cols t' = term_cols t \<Longrightarrow> buffer_index t' row col = buffer_index t row col"
  by (simp add: buffer_index_def)

lemma buffer_index_col_neq:
  "(word_of_int col :: u32) \<noteq> word_of_int col' \<Longrightarrow>
   buffer_index t row col \<noteq> buffer_index t row col'"
  by (simp add: buffer_index_def word_unat_eq_iff [symmetric])

lemma ts_scroll_to_bottom_fields [simp]:
  "term_cols (ts_scroll_to_bottom t) = term_cols t"
  "term_rows (ts_scroll_to_bottom t) = term_rows t"
  "current_row (ts_scroll_to_bottom t) = current_row t"
  "current_col (ts_scroll_to_bottom t) = current_col t"
  "term_tabs (ts_scroll_to_bottom t) = term_tabs t"
  "serial_console (ts_scroll_to_bottom t) = serial_console t"
  "total_buffer_rows (ts_scroll_to_bottom t) = total_buffer_rows t"
  by (simp_all add: ts_scroll_to_bottom_def)

lemma write_printable_char_more [simp]:
  "serial_console (term_internal_write_printable_char c color t) = serial_console t"
  "total_buffer_rows (term_internal_write_printable_char c color t) = total_buffer_rows t"
  "buffer (term_internal_write_printable_char c color t) =
     (buffer t)(buffer_index t (uint (current_row t)) (uint (current_col t)) := make_vgaentry c color)"
  by (simp_all add: term_internal_write_printable_char_def Let_def buffer_set_entry_def)

subsection \<open>Some terminals\<close>

text \<open>
  \<open>vga_term\<close> is an 80 by 25 terminal with a tab bitmap, no filter, a blank buffer of 250
  rows and the cursor in the top left corner. \<open>wrap_term\<close> is the same terminal after
  \<open>2^32 - 1\<close> lines, with the cursor in the last row, a backend that scrolls by itself and
  a filter that emits a scroll-up action for the byte \<open>x\<close>. \<open>one_column_term\<close> is one
  column wide. \<open>right_edge_term\<close> has the cursor in the last column, \<open>scrolled_term\<close> has
  scrolled by 30 lines. \<open>char_at\<close> reads the character of a cell of the visible grid,
  \<open>tab_marked\<close> the tab bitmap. \<open>without_cursor_moves\<close> keeps the calls of the backend
  other than \<open>move_cursor\<close>.
\<close>

definition char_at :: "int \<Rightarrow> int \<Rightarrow> 'c term_state \<Rightarrow> u8" where
  "char_at row col t = vgaentry_get_char (buffer_get_entry t row col)"

definition without_cursor_moves :: "vi_call list \<Rightarrow> vi_call list" where
  "without_cursor_moves cs =
     filter (\<lambda>c. case c of Move_Cursor row col color \<Rightarrow> False | _ \<Rightarrow> True) cs"

definition tab_marked :: "int \<Rightarrow> int \<Rightarrow> 'c term_state \<Rightarrow> bool" where
  "tab_marked row col t =
     (case term_tabs t of None \<Rightarrow> False | Some tabs \<Rightarrow> tabs (row * uint (term_cols t) + col))"

definition vga_term :: "unit term_state" where
  "vga_term =
     \<lparr>term_cols = 80, term_rows = 25, current_row = 0, current_col = 0, term_col_offset = 0,
      vi = \<lparr>vi_output = True, scroll_one_line_up = False, flush_buffers = False,
             redraw_static_elements = False, disable_static_elems_refresh = False,
             enable_static_elems_refresh = False\<rparr>,
      saved_vi = no_output_vi,
      buffer = (\<lambda>_. make_vgaentry 0x20 default_color),
      scroll = 0, max_scroll = 0, total_buffer_rows = 250, extra_buffer_rows = 225,
      term_tabs = Some (\<lambda>_. False), filter_func = None, filter_ctx = (),
      serial_console = False, vi_calls = [], serial_out = []\<rparr>"

definition wrap_term :: "unit term_state" where
  "wrap_term =
     vga_term\<lparr>current_row := 24, scroll := 0xFFFFFFFF, max_scroll := 0xFFFFFFFF,
       vi := (vi vga_term)\<lparr>scroll_one_line_up := True\<rparr>,
       filter_func := Some (\<lambda>c color ctx.
         (True, color, if c = 0x78 then Some (A_scroll_up 1) else None, ctx))\<rparr>"

definition one_column_term :: "unit term_state" where
  "one_column_term = vga_term\<lparr>term_cols := 1\<rparr>"

definition right_edge_term :: "unit term_state" where
  "right_edge_term = vga_term\<lparr>current_col := 79\<rparr>"

definition scrolled_term :: "unit term_state" where
  "scrolled_term = vga_term\<lparr>scroll := 30, max_scroll := 30\<rparr>"

subsection \<open>Claims about the terminal\<close>

text \<open>
  Claim C3, as amended. With tab size 8 and a tab bitmap, on a terminal more than 10 columns
  wide, without a filter and not in serial-console mode, whose cursor is at column 0 of a
  row of the grid: writing the span \<open>a\<close>, tab leaves the cursor in the same row, at the
  tab stop of column 8 or in the column after it. The tab draws nothing: the buffer and
  the serial output are as after \<open>a\<close> alone, and so are the calls of the backend, but for
  where they move the cursor. The tab sets one mark in the tab bitmap, at the cell left of
  the cursor. Writing \<open>a\<close>, tab, \<open>b\<close> places \<open>b\<close> at the column where the tab left the
  cursor and leaves the cursor one column further right; \<open>a\<close> is at column 0 and the tab
  bitmap is as the tab left it.
\<close>

theorem tab_write:
  assumes tabs: "term_tabs t = Some tabs" and ser: "\<not> serial_console t"
    and nofilter: "filter_func t = None" and col0: "current_col t = 0"
    and wide: "10 < term_cols t"
    and row: "current_row t < term_rows t" and rows: "total_buffer_rows t \<noteq> 0"
  shows "\<exists>ta t1 t2.
           term_execute_action (Suc depth) (A_write [0x61] color) t = Some ta \<and>
           term_execute_action (Suc depth) (A_write [0x61, 0x09] color) t = Some t1 \<and>
           term_execute_action (Suc depth) (A_write [0x61, 0x09, 0x62] color) t = Some t2 \<and>
           buffer t1 = buffer ta \<and>
           without_cursor_moves (vi_calls t1) = without_cursor_moves (vi_calls ta) \<and>
           serial_out t1 = serial_out ta \<and>
           current_row t1 = current_row t \<and> current_row t2 = current_row t \<and>
           8 \<le> current_col t1 \<and> current_col t1 \<le> 9 \<and>
           current_col t2 = current_col t1 + 1 \<and> current_col t2 < term_cols t \<and>
           term_tabs t1 =
             Some (tabs(uint (current_row t) * uint (term_cols t) + uint (current_col t1) - 1 := True)) \<and>
           term_tabs t2 = term_tabs t1 \<and>
           vgaentry_get_char (buffer_get_entry t2 (uint (current_row t)) 0) = 0x61 \<and>
           vgaentry_get_char (buffer_get_entry t2 (uint (current_row t)) (uint (current_col t1))) = 0x62"
proof -
  let ?fin = "\<lambda>u. vi_flush_buffers (vi_move_cursor_to_current u)"
  define t0 where "t0 = vi_do Enable_Cursor (ts_scroll_to_bottom t)"
  define ta where "ta = term_internal_write_printable_char 0x61 color t0"
  define tb where "tb = term_internal_write_tab color ta"
  define tc where "tc = term_internal_write_printable_char 0x62 color tb"
  have c: "10 < uint (term_cols t)" "uint (term_cols t) < 65536"
    using wide uint_lt2p [of "term_cols t"] by (simp_all add: word_less_def)
  have t0: "term_tabs t0 = Some tabs" "\<not> serial_console t0" "filter_func t0 = None"
    "current_col t0 = 0" "current_row t0 = current_row t" "term_cols t0 = term_cols t"
    using tabs ser nofilter col0 by (simp_all add: t0_def)
  have ne1: "(1 :: u16) \<noteq> term_cols t" using c by (auto simp: word_uint_eq_iff)
  have a: "term_internal_write_char2 0x61 color t0 = ta"
    using t0 ne1 by (simp add: write_char2_default default_case_letters ta_def)
  have ta: "term_tabs ta = Some tabs" "\<not> serial_console ta" "current_col ta = 1"
    "current_row ta = current_row t" "term_cols ta = term_cols t"
    using t0 by (simp_all add: ta_def)
  have tgt: "tab_target ta = 8"
    using ta(3) wide by (intro tab_target_from_col_1) (simp_all add: ta(5))
  have b: "term_internal_write_char2 0x09 color ta = tb"
    using ta(2) by (simp add: write_char2_tab tb_def)
  have tb_eq: "tb = ta\<lparr>term_tabs :=
        Some (tabs(uint (current_row t) * uint (term_cols t) + 8 := True)), current_col := 9\<rparr>"
    unfolding tb_def write_tab_with_tabs [OF ta(1)] tgt by (simp add: ta)
  have tb: "\<not> serial_console tb" "current_col tb = 9" "current_row tb = current_row t"
    "term_cols tb = term_cols t"
    "term_tabs tb = Some (tabs(uint (current_row t) * uint (term_cols t) + 8 := True))"
    using ta by (simp_all add: tb_eq)
  have ne10: "(10 :: u16) \<noteq> term_cols t" using c by (auto simp: word_uint_eq_iff)
  have cc: "term_internal_write_char2 0x62 color tb = tc"
    using tb ne10 by (simp add: write_char2_default default_case_letters tc_def)
  have tc: "current_col tc = 10" "current_row tc = current_row t" "term_cols tc = term_cols t"
    "term_tabs tc = term_tabs tb"
    using tb by (simp_all add: tc_def)
  have w0: "write_chars exec [0x61] color t0 = Some ta" for exec
    unfolding write_chars_no_filter [OF t0(3)] using a by simp
  have w1: "write_chars exec [0x61, 0x09] color t0 = Some tb" for exec
    unfolding write_chars_no_filter [OF t0(3)] using a b by simp
  have w2: "write_chars exec [0x61, 0x09, 0x62] color t0 = Some tc" for exec
    unfolding write_chars_no_filter [OF t0(3)] using a b cc by simp
  have run0: "term_execute_action (Suc depth) (A_write [0x61] color) t = Some (?fin ta)"
    using w0 [of "term_execute_action depth"]
    by (simp add: dispatch_def term_action_write_def Let_def t0_def [symmetric]
        del: write_chars.simps)
  have run1: "term_execute_action (Suc depth) (A_write [0x61, 0x09] color) t = Some (?fin tb)"
    using w1 [of "term_execute_action depth"]
    by (simp add: dispatch_def term_action_write_def Let_def t0_def [symmetric]
        del: write_chars.simps)
  have run2: "term_execute_action (Suc depth) (A_write [0x61, 0x09, 0x62] color) t = Some (?fin tc)"
    using w2 [of "term_execute_action depth"]
    by (simp add: dispatch_def term_action_write_def Let_def t0_def [symmetric]
        del: write_chars.simps)
  have idx: "buffer_index u r k = buffer_index t0 r k"
    if "u = ta \<or> u = tb \<or> u = tc \<or> u = ?fin tc" for u r k
    using that by (auto simp: ta_def tb_eq tc_def intro!: buffer_index_eq)
  have buf: "buffer tc =
      (buffer t0)(buffer_index t0 (uint (current_row t)) 0 := make_vgaentry 0x61 color,
                  buffer_index t0 (uint (current_row t)) 9 := make_vgaentry 0x62 color)"
    using idx [of tb] by (simp add: tc_def tb ta_def t0 tb_eq)
  have apart: "buffer_index t0 (uint (current_row t)) 0 \<noteq> buffer_index t0 (uint (current_row t)) 9"
    by (rule buffer_index_col_neq) simp
  have chr: "vgaentry_get_char (make_vgaentry ch color) = ch" for ch
    unfolding vgaentry_get_char_def make_vgaentry_def
    by (rule bit_word_eqI) (auto simp: bit_simps)
  have wide9: "(9 :: u16) < term_cols t" "(10 :: u16) < term_cols t" "(1 :: u16) < 9"
    using c by (simp_all add: word_less_def)
  have mark: "uint (current_row t) * uint (term_cols t) + uint (current_col (?fin tb)) - 1 =
      uint (current_row t) * uint (term_cols t) + 8"
    by (simp add: tb)
  have same: "buffer tb = buffer ta" "vi_calls tb = vi_calls ta" "serial_out tb = serial_out ta"
    "vi tb = vi ta"
    by (simp_all add: tb_eq)
  show ?thesis
  proof (intro exI conjI)
    show "term_execute_action (Suc depth) (A_write [0x61] color) t = Some (?fin ta)"
      by (rule run0)
    show "buffer (?fin tb) = buffer (?fin ta)" by (simp add: same)
    show "without_cursor_moves (vi_calls (?fin tb)) = without_cursor_moves (vi_calls (?fin ta))"
      by (simp add: without_cursor_moves_def vi_flush_buffers_def vi_move_cursor_to_current_def
          vi_do_def same)
    show "serial_out (?fin tb) = serial_out (?fin ta)" by (simp add: same)
    show "term_execute_action (Suc depth) (A_write [0x61, 0x09] color) t = Some (?fin tb)"
      by (rule run1)
    show "term_execute_action (Suc depth) (A_write [0x61, 0x09, 0x62] color) t = Some (?fin tc)"
      by (rule run2)
    show "current_row (?fin tb) = current_row t" by (simp add: tb)
    show "current_row (?fin tc) = current_row t" by (simp add: tc)
    show "8 \<le> current_col (?fin tb)" by (simp add: tb)
    show "current_col (?fin tb) \<le> 9" by (simp add: tb)
    show "current_col (?fin tc) = current_col (?fin tb) + 1" by (simp add: tb tc)
    show "current_col (?fin tc) < term_cols t" by (simp add: tc wide9)
    show "term_tabs (?fin tb) =
        Some (tabs(uint (current_row t) * uint (term_cols t) + uint (current_col (?fin tb)) - 1 := True))"
      unfolding mark by (simp add: tb)
    show "term_tabs (?fin tc) = term_tabs (?fin tb)" by (simp add: tc)
    show "vgaentry_get_char (buffer_get_entry (?fin tc) (uint (current_row t)) 0) = 0x61"
      using apart by (simp add: buffer_get_entry_def idx buf chr)
    show "vgaentry_get_char
            (buffer_get_entry (?fin tc) (uint (current_row t)) (uint (current_col (?fin tb)))) = 0x62"
      by (simp add: buffer_get_entry_def idx buf chr tb)
  qed
qed

theorem tab_write_witness:
  "term_tabs vga_term = Some (\<lambda>_. False) \<and> \<not> serial_console vga_term \<and>
   filter_func vga_term = None \<and> current_col vga_term = 0 \<and> 10 < term_cols vga_term \<and>
   current_row vga_term < term_rows vga_term \<and> total_buffer_rows vga_term \<noteq> 0 \<and>
   (\<exists>ta t1 t2.
      term_execute_action (Suc 0) (A_write [0x61] 7) vga_term = Some ta \<and>
      term_execute_action (Suc 0) (A_write [0x61, 0x09] 7) vga_term = Some t1 \<and>
      term_execute_action (Suc 0) (A_write [0x61, 0x09, 0x62] 7) vga_term = Some t2 \<and>
      buffer t1 = buffer ta \<and>
      without_cursor_moves (vi_calls t1) = without_cursor_moves (vi_calls ta) \<and>
      serial_out t1 = serial_out ta \<and>
      current_row t1 = 0 \<and> current_row t2 = 0 \<and>
      8 \<le> current_col t1 \<and> current_col t1 \<le> 9 \<and>
      current_col t2 = current_col t1 + 1 \<and> current_col t2 < 80 \<and>
      term_tabs t1 = Some ((\<lambda>_. False)(uint (current_col t1) - 1 := True)) \<and>
      term_tabs t2 = term_tabs t1 \<and>
      vgaentry_get_char (buffer_get_entry t2 0 0) = 0x61 \<and>
      vgaentry_get_char (buffer_get_entry t2 0 (uint (current_col t1))) = 0x62)"
proof -
  have h: "term_tabs vga_term = Some (\<lambda>_. False)" "\<not> serial_console vga_term"
    "filter_func vga_term = None" "current_col vga_term = 0" "10 < term_cols vga_term"
    "current_row vga_term < term_rows vga_term" "total_buffer_rows vga_term \<noteq> 0"
    by (simp_all add: vga_term_def)
  have v: "current_row vga_term = 0" "term_cols vga_term = 80" by (simp_all add: vga_term_def)
  from tab_write [OF h, of 0 7] h show ?thesis by (simp add: v)
qed

text \<open>
  Claim C3 as stated fails on the 80 by 25 terminal: after \<open>a\<close>, tab the cursor is at
  column 9, not 8; after \<open>a\<close>, tab, \<open>b\<close> column 8 holds a blank and column 9 holds \<open>b\<close>; of
  the cells between \<open>a\<close> and \<open>b\<close> only column 8 is marked in the tab bitmap.
\<close>

theorem tab_write_counterexample:
  "map_option current_col (term_execute_action 1 (A_write [0x61, 0x09] 7) vga_term) = Some 9 \<and>
   map_option (char_at 0 8) (term_execute_action 1 (A_write [0x61, 0x09, 0x62] 7) vga_term)
     = Some 0x20 \<and>
   map_option (char_at 0 9) (term_execute_action 1 (A_write [0x61, 0x09, 0x62] 7) vga_term)
     = Some 0x62 \<and>
   map_option (tab_marked 0 1) (term_execute_action 1 (A_write [0x61, 0x09, 0x62] 7) vga_term)
     = Some False \<and>
   map_option (tab_marked 0 7) (term_execute_action 1 (A_write [0x61, 0x09, 0x62] 7) vga_term)
     = Some False \<and>
   map_option (tab_marked 0 8) (term_execute_action 1 (A_write [0x61, 0x09, 0x62] 7) vga_term)
     = Some True"
  by code_simp

text \<open>
  Claim C8, as amended. Every terminal action keeps
  \<open>max_scroll - scroll \<le> extra_buffer_rows\<close>, the difference taken in 32-bit arithmetic.
  The whole invariant, with \<open>scroll \<le> max_scroll\<close>, is kept by every action of a terminal
  without a filter (and such an action always completes), by every action other than a
  write, and by the interpretation of a byte unless \<open>max_scroll\<close> is \<open>2^32 - 1\<close> while the
  view is not at the bottom. For any requested offset \<open>ts_set_scroll\<close> leaves \<open>scroll\<close> at
  the request clamped into \<open>[max(0, max_scroll - extra_buffer_rows), max_scroll]\<close>, which
  establishes the invariant.
\<close>

theorem scroll_bounds:
  assumes "total_buffer_rows t \<noteq> 0"
  shows "(scroll_dist_inv t \<longrightarrow> term_execute_action depth a t = Some t' \<longrightarrow> scroll_dist_inv t') \<and>
         (scroll_inv t \<longrightarrow> filter_func t = None \<longrightarrow>
            (\<exists>u. term_execute_action (Suc depth) a t = Some u \<and> scroll_inv u)) \<and>
         (scroll_inv t \<longrightarrow> \<not> is_write a \<longrightarrow> term_execute_action (Suc depth) a t = Some t' \<longrightarrow>
            scroll_inv t') \<and>
         (scroll_inv t \<longrightarrow> max_scroll t \<noteq> 0xFFFFFFFF \<or> scroll t = max_scroll t \<longrightarrow>
            scroll_inv (term_internal_write_char2 c color t)) \<and>
         scroll (ts_set_scroll r t) =
           min (max r (if extra_buffer_rows t < max_scroll t
                       then max_scroll t - extra_buffer_rows t else 0))
               (max_scroll t) \<and>
         scroll_inv (ts_set_scroll r t)"
proof (intro conjI impI)
  assume "scroll_dist_inv t" "term_execute_action depth a t = Some t'"
  then show "scroll_dist_inv t'" using execute_action_dist by blast
next
  assume "scroll_inv t" "filter_func t = None"
  then show "\<exists>u. term_execute_action (Suc depth) a t = Some u \<and> scroll_inv u"
    using execute_action_no_filter [of t depth a] by blast
next
  assume "scroll_inv t" "\<not> is_write a" "term_execute_action (Suc depth) a t = Some t'"
  then show "scroll_inv t'"
    using simple_action_scroll_inv [of a "term_execute_action depth" t t'] by simp
next
  assume "scroll_inv t" "max_scroll t \<noteq> 0xFFFFFFFF \<or> scroll t = max_scroll t"
  then show "scroll_inv (term_internal_write_char2 c color t)" by (rule write_char2_inv)
next
  show "scroll (ts_set_scroll r t) =
      min (max r (if extra_buffer_rows t < max_scroll t
                  then max_scroll t - extra_buffer_rows t else 0)) (max_scroll t)"
    by (simp add: ts_set_scroll_scroll min_scroll_def)
next
  show "scroll_inv (ts_set_scroll r t)" by (rule ts_set_scroll_inv)
qed

theorem scroll_bounds_witness:
  "total_buffer_rows scrolled_term \<noteq> 0 \<and> scroll_dist_inv scrolled_term \<and>
   scroll_inv scrolled_term \<and> filter_func scrolled_term = None \<and>
   \<not> is_write (A_scroll_up 5) \<and>
   term_execute_action (Suc 0) (A_scroll_up 5) scrolled_term =
     Some (term_action_scroll_up 5 scrolled_term) \<and>
   scroll_dist_inv (term_action_scroll_up 5 scrolled_term) \<and>
   scroll_inv (term_action_scroll_up 5 scrolled_term) \<and>
   (\<exists>u. term_execute_action (Suc 0) (A_scroll_up 5) scrolled_term = Some u \<and> scroll_inv u) \<and>
   max_scroll scrolled_term \<noteq> 0xFFFFFFFF \<and>
   scroll_inv (term_internal_write_char2 0x0A 7 scrolled_term) \<and>
   scroll (ts_set_scroll 1000 scrolled_term) = 30 \<and>
   scroll_inv (ts_set_scroll 1000 scrolled_term)"
proof -
  have h: "total_buffer_rows scrolled_term \<noteq> 0"
    by (simp add: scrolled_term_def vga_term_def)
  have i: "scroll_inv scrolled_term" "scroll_dist_inv scrolled_term"
    "filter_func scrolled_term = None" "max_scroll scrolled_term \<noteq> 0xFFFFFFFF"
    by (simp_all add: scrolled_term_def vga_term_def scroll_inv_def scroll_dist_inv_def)
  have w: "\<not> is_write (A_scroll_up 5)" by (simp add: is_write_def)
  have e: "term_execute_action (Suc 0) (A_scroll_up 5) scrolled_term =
      Some (term_action_scroll_up 5 scrolled_term)"
    by (simp add: dispatch_def)
  have v: "max_scroll scrolled_term = 30" "extra_buffer_rows scrolled_term = 225"
    by (simp_all add: scrolled_term_def vga_term_def)
  from scroll_bounds [OF h, where depth = 0 and a = "A_scroll_up 5"
      and t' = "term_action_scroll_up 5 scrolled_term" and c = "0x0A" and color = 7 and r = 1000]
    scroll_bounds [OF h, where depth = "Suc 0" and a = "A_scroll_up 5"
      and t' = "term_action_scroll_up 5 scrolled_term" and c = "0x0A" and color = 7 and r = 1000]
  show ?thesis using h i w e v by simp
qed

text \<open>
  Claim C8 as stated fails where the line counter wraps around: on \<open>wrap_term\<close> the write
  of \<open>x\<close> and a newline scrolls the view up by one line (the action the filter emits for
  \<open>x\<close>) and then increments \<open>max_scroll\<close> from \<open>2^32 - 1\<close> to 0 and \<open>scroll\<close> from
  \<open>2^32 - 2\<close> to \<open>2^32 - 1\<close>, so that \<open>scroll > max_scroll\<close> afterwards.
\<close>

theorem scroll_bounds_counterexample:
  "scroll_inv wrap_term \<and>
   map_option scroll (term_execute_action 2 (A_write [0x78, 0x0A] 7) wrap_term)
     = Some 0xFFFFFFFF \<and>
   map_option max_scroll (term_execute_action 2 (A_write [0x78, 0x0A] 7) wrap_term) = Some 0 \<and>
   map_option scroll_inv (term_execute_action 2 (A_write [0x78, 0x0A] 7) wrap_term)
     = Some False"
  by code_simp

text \<open>
  Claim C10, as amended. On a terminal that is at least two columns wide or has no tab
  bitmap, every action and every byte interpretation that starts with the cursor inside
  the visible grid ends with the cursor inside it. A tab with a tab bitmap marks a column
  \<open>k\<close> between 0 and \<open>term_cols - 2\<close> and leaves the cursor at column \<open>k + 1\<close>. A printed
  byte that fills the last column leaves the cursor at column 0, in the next row or, from
  the last row, in the same row of the scrolled grid.
\<close>

theorem cursor_stays_in_grid:
  assumes "cursor_in_grid t" and "tab_stops_fit t" and "total_buffer_rows t \<noteq> 0"
  shows "(term_execute_action depth a t = Some t' \<longrightarrow> cursor_in_grid t') \<and>
         cursor_in_grid (term_internal_write_char2 c color t) \<and>
         (\<forall>tabs. term_tabs t = Some tabs \<longrightarrow>
            (\<exists>k. 0 \<le> k \<and> k \<le> uint (term_cols t) - 2 \<and>
                 term_internal_write_tab color t =
                   t\<lparr>term_tabs :=
                        Some (tabs(uint (current_row t) * uint (term_cols t) + k := True)),
                     current_col := word_of_int (k + 1)\<rparr> \<and>
                 uint (current_col (term_internal_write_tab color t)) = k + 1)) \<and>
         (default_case c \<and> \<not> serial_console t \<and> current_col t + 1 = term_cols t \<longrightarrow>
            current_col (term_internal_write_char2 c color t) = 0 \<and>
            current_row (term_internal_write_char2 c color t) =
              (if uint (current_row t) < uint (term_rows t) - 1
               then current_row t + 1 else current_row t))"
proof (intro conjI impI allI)
  assume "term_execute_action depth a t = Some t'"
  then show "cursor_in_grid t'"
    using execute_action_cursor [of depth a t t'] assms(1,2) by simp
next
  show "cursor_in_grid (term_internal_write_char2 c color t)"
    using write_char2_cursor [OF assms(1,2)] by simp
next
  fix tabs
  assume tabs: "term_tabs t = Some tabs"
  then have wide: "2 \<le> term_cols t" using assms(2) by (simp add: tab_stops_fit_def)
  show "\<exists>k. 0 \<le> k \<and> k \<le> uint (term_cols t) - 2 \<and>
            term_internal_write_tab color t =
              t\<lparr>term_tabs :=
                   Some (tabs(uint (current_row t) * uint (term_cols t) + k := True)),
                current_col := word_of_int (k + 1)\<rparr> \<and>
            uint (current_col (term_internal_write_tab color t)) = k + 1"
    using tab_target_bounds [OF wide] write_tab_with_tabs [OF tabs, of color]
      write_tab_col(1) [OF tabs wide, of color]
    by (intro exI [of _ "tab_target t"]) simp
next
  assume h: "default_case c \<and> \<not> serial_console t \<and> current_col t + 1 = term_cols t"
  then have w: "term_internal_write_char2 c color t =
      term_internal_incr_row color
        ((term_internal_write_printable_char c color t)\<lparr>current_col := 0\<rparr>)"
    by (simp add: write_char2_default)
  show "current_col (term_internal_write_char2 c color t) = 0" by (simp add: w)
  show "current_row (term_internal_write_char2 c color t) =
      (if uint (current_row t) < uint (term_rows t) - 1 then current_row t + 1 else current_row t)"
    by (simp add: w incr_row_row_cases)
qed

theorem cursor_stays_in_grid_witness:
  "cursor_in_grid right_edge_term \<and> tab_stops_fit right_edge_term \<and>
   total_buffer_rows right_edge_term \<noteq> 0 \<and>
   term_execute_action (Suc 0) (A_move_ch_and_cur 100 200) right_edge_term =
     Some (term_action_move_ch_and_cur 100 200 right_edge_term) \<and>
   cursor_in_grid (term_action_move_ch_and_cur 100 200 right_edge_term) \<and>
   cursor_in_grid (term_internal_write_char2 0x61 7 right_edge_term) \<and>
   term_tabs right_edge_term = Some (\<lambda>_. False) \<and>
   (\<exists>k. 0 \<le> k \<and> k \<le> uint (term_cols right_edge_term) - 2 \<and>
        term_internal_write_tab 7 right_edge_term =
          right_edge_term\<lparr>term_tabs :=
              Some ((\<lambda>_. False)
                (uint (current_row right_edge_term) * uint (term_cols right_edge_term) + k := True)),
            current_col := word_of_int (k + 1)\<rparr> \<and>
        uint (current_col (term_internal_write_tab 7 right_edge_term)) = k + 1) \<and>
   default_case 0x61 \<and> \<not> serial_console right_edge_term \<and>
   current_col right_edge_term + 1 = term_cols right_edge_term \<and>
   current_col (term_internal_write_char2 0x61 7 right_edge_term) = 0 \<and>
   current_row (term_internal_write_char2 0x61 7 right_edge_term) = 1"
proof -
  have h: "cursor_in_grid right_edge_term" "tab_stops_fit right_edge_term"
    "total_buffer_rows right_edge_term \<noteq> 0"
    by (simp_all add: right_edge_term_def vga_term_def cursor_in_grid_def tab_stops_fit_def)
  have e: "term_execute_action (Suc 0) (A_move_ch_and_cur 100 200) right_edge_term =
      Some (term_action_move_ch_and_cur 100 200 right_edge_term)"
    by (simp add: dispatch_def)
  have t: "term_tabs right_edge_term = Some (\<lambda>_. False)"
    by (simp add: right_edge_term_def vga_term_def)
  have d: "default_case 0x61 \<and> \<not> serial_console right_edge_term \<and>
      current_col right_edge_term + 1 = term_cols right_edge_term"
    by (simp add: default_case_letters right_edge_term_def vga_term_def)
  have v: "uint (current_row right_edge_term) < uint (term_rows right_edge_term) - 1"
    "current_row right_edge_term + 1 = 1"
    by (simp_all add: right_edge_term_def vga_term_def)
  from cursor_stays_in_grid [OF h, where depth = "Suc 0" and a = "A_move_ch_and_cur 100 200"
      and t' = "term_action_move_ch_and_cur 100 200 right_edge_term" and c = "0x61"
      and color = 7]
  show ?thesis using h e t d v by simp
qed

text \<open>
  Claim C10 as stated fails on a terminal one column wide with a tab bitmap: the bound
  \<open>(u32)term_cols - 2\<close> of \<open>term_internal_write_tab\<close> wraps around, and a tab written at
  column 0 leaves the cursor at column 9.
\<close>

theorem cursor_counterexample:
  "cursor_in_grid one_column_term \<and>
   map_option current_col (term_execute_action 1 (A_write [0x09] 7) one_column_term) = Some 9 \<and>
   map_option term_cols (term_execute_action 1 (A_write [0x09] 7) one_column_term) = Some 1 \<and>
   map_option cursor_in_grid (term_execute_action 1 (A_write [0x09] 7) one_column_term)
     = Some False"
  by code_simp

section \<open>The terminal action queue (kernel/char/term.c)\<close>

text \<open>
  Modelled from the spec: \<open>ringbuf_init\<close>, the initialisation of the ring buffer that
  \<open>init_term\<close> calls. Its source \<open>ringbuf.h\<close> is not among the sources; the spec makes the
  action queue a wrapper of the ring buffer of its section 4.1, which \<open>safe_ringbuf.cpp\<close>
  implements.
\<close>

definition ringbuf_init :: "nat \<Rightarrow> nat \<Rightarrow> (nat \<Rightarrow> 'a) \<Rightarrow> 'a safe_ringbuf" where
  "ringbuf_init n e_size storage = safe_ringbuf_init n e_size storage"

text \<open>
  Modelled from the spec: \<open>ringbuf_write_elem_ex\<close>, the write of the ring buffer that
  \<open>term_execute_or_enqueue_action\<close> calls, missing with \<open>ringbuf.h\<close>. By the spec it is the
  write of section 4.1: it answers whether the element was accepted and whether the buffer
  was empty before. No compare-and-swap fails spuriously here, which changes no result.
\<close>

definition ringbuf_write_elem_ex ::
  "'a safe_ringbuf \<Rightarrow> 'a \<Rightarrow> rb_fault + (bool \<times> bool \<times> 'a safe_ringbuf)"
where
  "ringbuf_write_elem_ex rb elem = safe_ringbuf_write_elem 0 rb elem"

text \<open>
  Modelled from the spec: \<open>ringbuf_read_elem\<close>, the read of the ring buffer that the drain
  loop calls, missing with \<open>ringbuf.h\<close>. By the spec it is the read of section 4.1: it fails
  on an empty buffer and otherwise hands out the oldest element.
\<close>

definition ringbuf_read_elem ::
  "'a safe_ringbuf \<Rightarrow> 'a \<Rightarrow> rb_fault + (bool \<times> 'a \<times> 'a safe_ringbuf)"
where
  "ringbuf_read_elem rb out = safe_ringbuf_read_elem 0 rb out"

text \<open>
  The state that \<open>term_execute_or_enqueue_action\<close> works on: the ring buffer of actions and
  the terminal. Two lists that the code does not have record what happened. \<open>enqueued\<close>
  lists the actions written to the ring buffer, in the order of the writes, each with the
  nesting level of the call of \<open>term_execute_or_enqueue_action\<close> that wrote it and with
  what the write answered in \<open>was_empty\<close>. \<open>dispatched\<close> lists the actions that
  \<open>term_execute_action\<close> has carried out on the terminal, in the order in which they took
  effect, each with the nesting level of the call that dispatched it.
\<close>

record 'c term_queue =
  term_ringbuf :: "term_action safe_ringbuf"
  term_st :: "'c term_state"
  enqueued :: "(nat \<times> bool \<times> term_action) list"
  dispatched :: "(nat \<times> term_action) list"

text \<open>
  An interrupt whose handler calls \<open>term_execute_or_enqueue_action\<close> with the given action.
  The handler can be interrupted in turn; its schedule lists the interrupts that arrive
  during its call: the first list between its write to the ring buffer and its first read,
  the second inside its first dispatch before the action takes effect, the third inside
  its first dispatch after the action has taken effect, the fourth and the fifth inside its
  second dispatch, and so on. Interrupts listed for a dispatch that the handler never makes
  do not arrive. The handler of an interrupt runs one nesting level above the call it
  interrupts.

  A write to the ring buffer is one step, and so is the effect of an action on the
  terminal: an interrupt arrives before or after it, not in the middle. A dispatch does not
  touch the ring buffer, so for the ring buffer an interrupt in the middle of a dispatch is
  like one at its start.
\<close>

datatype irq = Irq term_action "irq list list"

definition next_irqs :: "irq list list \<Rightarrow> irq list" where
  "next_irqs sched = (case sched of [] \<Rightarrow> [] | d # ds \<Rightarrow> d)"

text \<open>
  How a call ends: it returns, it stops the kernel (\<open>VERIFY(written)\<close> fails, or a fault
  of the ring buffer), or it is still running when the patience of the model, the first
  argument of the functions below, is used up. Their second argument bounds the nesting of
  the actions that a filter emits, as the first argument of \<open>term_execute_action\<close> does;
  the third is the nesting level of the call.
\<close>

datatype 'a run = Finished 'a | Crashed | Unfinished

fun term_execute_or_enqueue_action ::
    "nat \<Rightarrow> nat \<Rightarrow> nat \<Rightarrow> irq list list \<Rightarrow> term_action \<Rightarrow> 'c term_queue \<Rightarrow> 'c term_queue run"
  and drain_loop ::
    "nat \<Rightarrow> nat \<Rightarrow> nat \<Rightarrow> irq list list \<Rightarrow> term_action \<Rightarrow> 'c term_queue \<Rightarrow> 'c term_queue run"
  and run_interrupts ::
    "nat \<Rightarrow> nat \<Rightarrow> nat \<Rightarrow> irq list \<Rightarrow> 'c term_queue \<Rightarrow> 'c term_queue run"
where
  "term_execute_or_enqueue_action 0 depth lvl sched a q = Unfinished"
| "term_execute_or_enqueue_action (Suc n) depth lvl sched a q =
     (case ringbuf_write_elem_ex (term_ringbuf q) a of
        Inl f \<Rightarrow> Crashed
      | Inr (written, was_empty, rb) \<Rightarrow>
          if \<not> written then Crashed
          else
            let q = q\<lparr>term_ringbuf := rb,
                      enqueued := enqueued q @ [(lvl, was_empty, a)]\<rparr> in
            if was_empty
            then (case run_interrupts n depth (Suc lvl) (next_irqs sched) q of
                    Finished q \<Rightarrow> drain_loop n depth lvl (tl sched) a q
                  | Crashed \<Rightarrow> Crashed
                  | Unfinished \<Rightarrow> Unfinished)
            else Finished q)"
| "drain_loop 0 depth lvl sched a q = Unfinished"
| "drain_loop (Suc n) depth lvl sched a q =
     (case ringbuf_read_elem (term_ringbuf q) a of
        Inl f \<Rightarrow> Crashed
      | Inr (got, a, rb) \<Rightarrow>
          if \<not> got then Finished (q\<lparr>term_ringbuf := rb\<rparr>)
          else
            let q = q\<lparr>term_ringbuf := rb\<rparr> in
            (case run_interrupts n depth (Suc lvl) (next_irqs sched) q of
               Finished q \<Rightarrow>
                 (case term_execute_action depth a (term_st q) of
                    None \<Rightarrow> Unfinished
                  | Some t \<Rightarrow>
                      let q = q\<lparr>term_st := t, dispatched := dispatched q @ [(lvl, a)]\<rparr> in
                      (case run_interrupts n depth (Suc lvl) (next_irqs (tl sched)) q of
                         Finished q \<Rightarrow> drain_loop n depth lvl (tl (tl sched)) a q
                       | Crashed \<Rightarrow> Crashed
                       | Unfinished \<Rightarrow> Unfinished))
             | Crashed \<Rightarrow> Crashed
             | Unfinished \<Rightarrow> Unfinished))"
| "run_interrupts n depth lvl [] q = Finished q"
| "run_interrupts 0 depth lvl (i # is) q = Unfinished"
| "run_interrupts (Suc n) depth lvl (Irq b sched # is) q =
     (case term_execute_or_enqueue_action n depth lvl sched b q of
        Finished q \<Rightarrow> run_interrupts n depth lvl is q
      | Crashed \<Rightarrow> Crashed
      | Unfinished \<Rightarrow> Unfinished)"

subsection \<open>What a run of the queue has done\<close>

text \<open>
  \<open>pending\<close> lists the actions in the ring buffer, oldest first. \<open>run_actions\<close> carries out
  a list of actions on the terminal, one after the other, with \<open>term_execute_action\<close>.
\<close>

abbreviation pending :: "'c term_queue \<Rightarrow> term_action list" where
  "pending q \<equiv> rb_unread (term_ringbuf q)"


text \<open>
  \<open>written es\<close> are the actions of a piece \<open>es\<close> of the log of writes. \<open>queued_by lvl es\<close>
  are the actions that calls of level \<open>lvl\<close> have written to a ring buffer that was in use,
  and \<open>own lvl ds\<close> are the actions of a piece \<open>ds\<close> of the log of dispatches that calls of
  level \<open>lvl\<close> have dispatched, both in the order of the log.
\<close>

definition written :: "(nat \<times> bool \<times> term_action) list \<Rightarrow> term_action list" where
  "written es = map (\<lambda>e. snd (snd e)) es"


definition own :: "nat \<Rightarrow> (nat \<times> term_action) list \<Rightarrow> term_action list" where
  "own lvl ds = map snd (filter (\<lambda>e. fst e = lvl) ds)"


text \<open>
  The number of interrupts of a schedule, nested ones included.
\<close>

fun interrupts :: "irq \<Rightarrow> nat" where
  "interrupts (Irq b sched) = Suc (sum_list (map (\<lambda>d. sum_list (map interrupts d)) sched))"

definition irqs_interrupts :: "irq list \<Rightarrow> nat" where
  "irqs_interrupts irqs = sum_list (map interrupts irqs)"

definition sched_interrupts :: "irq list list \<Rightarrow> nat" where
  "sched_interrupts sched = sum_list (map irqs_interrupts sched)"

lemma irqs_interrupts_simps [simp]:
  "irqs_interrupts [] = 0"
  "irqs_interrupts (Irq b sched # irqs) = Suc (sched_interrupts sched + irqs_interrupts irqs)"
  by (simp_all add: irqs_interrupts_def sched_interrupts_def cong: map_cong)

lemma sched_interrupts_simps [simp]:
  "sched_interrupts [] = 0"
  "sched_interrupts (d # ds) = irqs_interrupts d + sched_interrupts ds"
  by (simp_all add: sched_interrupts_def)



lemma written_simps [simp]:
  "written [] = []" "written (e # es) = snd (snd e) # written es"
  "written (es @ es') = written es @ written es'"
  by (simp_all add: written_def)


lemma own_simps [simp]:
  "own lvl [] = []"
  "own lvl ((l, a) # ds) = (if l = lvl then a # own lvl ds else own lvl ds)"
  "own lvl (ds @ ds') = own lvl ds @ own lvl ds'"
  by (simp_all add: own_def)















subsection \<open>One write and one read of the queue\<close>





subsection \<open>The shape of a call that returns\<close>



subsection \<open>What a call that returns has done\<close>


subsection \<open>A call returns\<close>


text \<open>
  With the ring buffer full the write is refused and \<open>VERIFY(written)\<close> stops the kernel.
\<close>

lemma full_queue_stops:
  assumes wf: "rb_wf (term_ringbuf q)" and "length (pending q) = max_elems (term_ringbuf q)"
  shows "term_execute_or_enqueue_action (Suc n) depth lvl sched a q = Crashed"
proof -
  have "full (stat (term_ringbuf q))"
    using wf assms(2) by (simp add: rb_count_full length_rb_unread)
  then have "ringbuf_write_elem_ex (term_ringbuf q) a = Inr (False, False, term_ringbuf q)"
    by (simp add: ringbuf_write_elem_ex_def write_full)
  then show ?thesis by simp
qed

subsection \<open>Some queues\<close>

text \<open>
  \<open>boot_queue\<close> is the queue as \<open>init_term\<close> leaves it, with the terminal \<open>vga_term\<close>: 32
  slots, none of them in use. \<open>busy_queue\<close> is the same queue between the write and the
  first read of a call of level 0, with the action of that call waiting. The schedules: \<open>two_interrupts\<close> has one interrupt
  between the write and the first read of the call and one at the start of its first
  dispatch; \<open>late_interrupt\<close> has one interrupt, at the start of the first dispatch;
  \<open>last_interrupt\<close> has one interrupt, at the end of the first dispatch. \<open>logs\<close> reads the
  two logs and the ring buffer of a call that has returned.
\<close>

definition boot_queue :: "unit term_queue" where
  "boot_queue =
     \<lparr>term_ringbuf = ringbuf_init 32 8 (\<lambda>_. A_write [] 0), term_st = vga_term,
      enqueued = [], dispatched = []\<rparr>"


definition two_interrupts :: "irq list list" where
  "two_interrupts = [[Irq (A_scroll_up 1) []], [Irq (A_scroll_down 2) []]]"



fun logs ::
  "'c term_queue run \<Rightarrow>
   ((nat \<times> bool \<times> term_action) list \<times> (nat \<times> term_action) list \<times> term_action list) option"
where
  "logs (Finished q) = Some (enqueued q, dispatched q, pending q)"
| "logs Crashed = None"
| "logs Unfinished = None"

text \<open>
  Two runs from \<open>boot_queue\<close>. With \<open>two_interrupts\<close> both interrupts find the ring buffer
  in use and only write to it; the call, of level 0, dispatches the three actions in the
  order of the writes. A patience of two steps is not enough for a call that drains.
\<close>

lemma run_two_interrupts:
  "logs (term_execute_or_enqueue_action 9 1 0 two_interrupts (A_write [0x61] 7) boot_queue) =
     Some ([(0, True, A_write [0x61] 7), (1, False, A_scroll_up 1), (1, False, A_scroll_down 2)],
           [(0, A_write [0x61] 7), (0, A_scroll_up 1), (0, A_scroll_down 2)], [])"
  by code_simp

lemma run_out_of_patience:
  "logs (term_execute_or_enqueue_action 2 1 0 [] (A_write [0x61] 7) boot_queue) = None"
  by code_simp

subsection \<open>Claims about the action queue\<close>




end
